theory Spec2Isabelle
  imports Main
begin

section \<open>Drafts and the media aggregator (app.py, lines 68-78 and 141-159)\<close>

text \<open>
  A media entry is the Python tuple \<open>(kind, file_id)\<close> of two \<open>str\<close> values. The source
  types the kind as \<open>str\<close>, so it is a \<open>string\<close> here and the comparisons against the
  literals \<open>"photo"\<close>, \<open>"video"\<close>, ... are string comparisons.
  The dataclass field \<open>text\<close> is called \<open>dtext\<close>, since \<open>text\<close> is an Isar keyword.
\<close>

type_synonym media_entry = "string \<times> string"

record draft =
  dtext :: string
  media :: "media_entry list"

text \<open>\<open>Draft()\<close>: both fields at their defaults.\<close>

definition Draft :: draft where
  "Draft = \<lparr>dtext = [], media = []\<rparr>"

text \<open>\<open>is_empty\<close>: \<open>not self.text and not self.media\<close> (empty string and empty list are falsy).\<close>

definition is_empty :: "draft \<Rightarrow> bool" where
  "is_empty d \<longleftrightarrow> dtext d = [] \<and> media d = []"

text \<open>\<open>k in ("photo", "video")\<close>\<close>

definition is_pv :: "string \<Rightarrow> bool" where
  "is_pv k \<longleftrightarrow> k = ''photo'' \<or> k = ''video''"

text \<open>
  The slice \<open>xs[-n:]\<close>: Python clamps the start index \<open>len(xs) - n\<close> at 0, which is what
  the truncating subtraction on \<open>nat\<close> does.
\<close>

definition slice_last :: "nat \<Rightarrow> 'a list \<Rightarrow> 'a list" where
  "slice_last n xs = drop (length xs - n) xs"

text \<open>
  The loop \<open>for k, fid in reversed(draft.media)\<close> of the \<open>else\<close> branch, with its two
  accumulators \<open>seen\<close> and \<open>new_media\<close>; the first argument is what is left to visit.
\<close>

fun collapse :: "media_entry list \<Rightarrow> string set \<Rightarrow> media_entry list \<Rightarrow> media_entry list" where
  "collapse [] seen new_media = new_media"
| "collapse ((k, fid) # rest) seen new_media =
     (if is_pv k then collapse rest seen (new_media @ [(k, fid)])
      else if k \<notin> seen then collapse rest (insert k seen) (new_media @ [(k, fid)])
      else collapse rest seen new_media)"

text \<open>\<open>add_media_to_draft\<close>, as the draft it leaves behind.\<close>

definition add_media_to_draft :: "draft \<Rightarrow> string \<Rightarrow> string \<Rightarrow> draft" where
  "add_media_to_draft d kind file_id =
     (if is_pv kind then
        d\<lparr>media := slice_last 10 (media d @ [(kind, file_id)])\<rparr>
      else
        d\<lparr>media := rev (collapse (rev (media d @ [(kind, file_id)])) {} [])\<rparr>)"

text \<open>A run of \<open>add_media_to_draft\<close> calls, one per entry of the list, oldest first.\<close>

fun add_all :: "draft \<Rightarrow> media_entry list \<Rightarrow> draft" where
  "add_all d [] = d"
| "add_all d ((k, fid) # es) = add_all (add_media_to_draft d k fid) es"

text \<open>
  The same loop without the accumulator (the entries it keeps, in visiting order); it is
  only used to reason about \<open>collapse\<close>.
\<close>

fun keep :: "media_entry list \<Rightarrow> string set \<Rightarrow> media_entry list" where
  "keep [] seen = []"
| "keep ((k, fid) # rest) seen =
     (if is_pv k then (k, fid) # keep rest seen
      else if k \<notin> seen then (k, fid) # keep rest (insert k seen)
      else keep rest seen)"

text \<open>
  The Draft invariant on the single-slot kinds: no kind other than photo and video occurs
  twice in the media list.
\<close>

definition singles_distinct :: "media_entry list \<Rightarrow> bool" where
  "singles_distinct ms \<longleftrightarrow> distinct (map fst (filter (\<lambda>e. \<not> is_pv (fst e)) ms))"


text \<open>The six kinds the media handlers pass to \<open>add_media_to_draft\<close>.\<close>

definition known_kind :: "string \<Rightarrow> bool" where
  "known_kind k \<longleftrightarrow> k \<in> {''photo'', ''video'', ''document'', ''animation'', ''audio'', ''voice''}"

text \<open>
  The Draft invariant as a whole: single-slot kinds occur at most once, every kind is one
  of the six, and there are at most ten photo/video entries.
\<close>

definition draft_ok :: "draft \<Rightarrow> bool" where
  "draft_ok d \<longleftrightarrow>
     singles_distinct (media d) \<and> list_all (\<lambda>e. known_kind (fst e)) (media d) \<and>
     length (filter (\<lambda>e. is_pv (fst e)) (media d)) \<le> 10"


section \<open>The payload resolver (app.py, lines 162-189 and 217-239)\<close>

datatype parse_mode = HTML

text \<open>\<open>InputMediaPhoto(media, caption, parse_mode)\<close> and \<open>InputMediaVideo(...)\<close>.\<close>

datatype input_media =
    InputMediaPhoto string "string option" "parse_mode option"
  | InputMediaVideo string "string option" "parse_mode option"

text \<open>Truthiness of an optional \<open>str\<close>: \<open>None\<close> and \<open>""\<close> are falsy.\<close>

definition truthy :: "string option \<Rightarrow> bool" where
  "truthy c \<longleftrightarrow> (case c of None \<Rightarrow> False | Some t \<Rightarrow> t \<noteq> [])"

text \<open>\<open>d.text or None\<close>\<close>

definition text_or_None :: "string \<Rightarrow> string option" where
  "text_or_None t = (if t = [] then None else Some t)"

text \<open>The loop \<open>for idx, (k, fid) in enumerate(pv)\<close>, from index \<open>idx\<close> on.\<close>

fun group_items :: "string \<Rightarrow> nat \<Rightarrow> media_entry list \<Rightarrow> input_media list" where
  "group_items t idx [] = []"
| "group_items t idx ((k, fid) # rest) =
     (let caption = (if idx = 0 then Some t else None);
          pm = (if truthy caption then Some HTML else None)
      in (if k = ''photo'' then InputMediaPhoto fid caption pm
          else InputMediaVideo fid caption pm) # group_items t (idx + 1) rest)"

definition draft_to_media_group :: "draft \<Rightarrow> input_media list option" where
  "draft_to_media_group d =
     (let pv = filter (\<lambda>(k, fid). is_pv k) (media d)
      in if length pv < 2 then None else Some (group_items (dtext d) 0 pv))"

text \<open>
  The chat a call is addressed to: the channel \<open>TARGET_CHAT\<close> or the operator's user id.
\<close>

datatype chat = Channel string | User int

definition TARGET_CHAT :: chat where
  "TARGET_CHAT = Channel ''@mnogomorya''"

text \<open>
  The texts the bot sends to the operator are fixed (Russian) literals; they are named here
  instead of spelled out.
\<close>

datatype notice =
    Published_by_timer
  | Scheduled_publish_error
  | Published
  | Publish_error
  | Draft_cleared
  | Nothing_to_publish

text \<open>
  The calls on the bot that the handlers below await. The media calls carry the file id,
  the caption and the parse mode; \<open>send_message\<close> the text and the parse mode;
  \<open>notify\<close> is a \<open>reply_text\<close>, \<open>edit_message_text\<close> or \<open>send_message\<close> to the operator
  with one of the fixed texts.
\<close>

datatype bot_call =
    send_media_group chat "input_media list"
  | send_photo chat string "string option" parse_mode
  | send_video chat string "string option" parse_mode
  | send_document chat string "string option" parse_mode
  | send_animation chat string "string option" parse_mode
  | send_audio chat string "string option" parse_mode
  | send_voice chat string "string option" parse_mode
  | send_message chat string parse_mode
  | notify int notice

text \<open>
  \<open>publish_to_channel\<close>: the one call it awaits on the bot. Whether that call returns or
  raises is decided by the transport, not here. \<open>if group:\<close> is true for a non-empty list;
  \<open>d.media[-1]\<close> is read only when the list is non-empty.
\<close>

definition publish_to_channel :: "draft \<Rightarrow> bot_call" where
  "publish_to_channel d =
     (case draft_to_media_group d of
        Some (g # gs) \<Rightarrow> send_media_group TARGET_CHAT (g # gs)
      | _ \<Rightarrow>
        if media d \<noteq> [] then
          (case last (media d) of (kind, fid) \<Rightarrow>
             if kind = ''photo'' then send_photo TARGET_CHAT fid (text_or_None (dtext d)) HTML
             else if kind = ''video'' then send_video TARGET_CHAT fid (text_or_None (dtext d)) HTML
             else if kind = ''document'' then send_document TARGET_CHAT fid (text_or_None (dtext d)) HTML
             else if kind = ''animation'' then send_animation TARGET_CHAT fid (text_or_None (dtext d)) HTML
             else if kind = ''audio'' then send_audio TARGET_CHAT fid (text_or_None (dtext d)) HTML
             else if kind = ''voice'' then send_voice TARGET_CHAT fid (text_or_None (dtext d)) HTML
             else send_message TARGET_CHAT (dtext d) HTML)
        else send_message TARGET_CHAT (dtext d) HTML)"

text \<open>What a call carries, for stating what was sent without naming the constructor.\<close>

fun call_kind :: "bot_call \<Rightarrow> string option" where
  "call_kind (send_photo c f cap pm) = Some ''photo''"
| "call_kind (send_video c f cap pm) = Some ''video''"
| "call_kind (send_document c f cap pm) = Some ''document''"
| "call_kind (send_animation c f cap pm) = Some ''animation''"
| "call_kind (send_audio c f cap pm) = Some ''audio''"
| "call_kind (send_voice c f cap pm) = Some ''voice''"
| "call_kind _ = None"

fun call_file :: "bot_call \<Rightarrow> string option" where
  "call_file (send_photo c f cap pm) = Some f"
| "call_file (send_video c f cap pm) = Some f"
| "call_file (send_document c f cap pm) = Some f"
| "call_file (send_animation c f cap pm) = Some f"
| "call_file (send_audio c f cap pm) = Some f"
| "call_file (send_voice c f cap pm) = Some f"
| "call_file _ = None"

fun call_caption :: "bot_call \<Rightarrow> string option" where
  "call_caption (send_photo c f cap pm) = cap"
| "call_caption (send_video c f cap pm) = cap"
| "call_caption (send_document c f cap pm) = cap"
| "call_caption (send_animation c f cap pm) = cap"
| "call_caption (send_audio c f cap pm) = cap"
| "call_caption (send_voice c f cap pm) = cap"
| "call_caption _ = None"

fun call_chat :: "bot_call \<Rightarrow> chat" where
  "call_chat (send_media_group c g) = c"
| "call_chat (send_photo c f cap pm) = c"
| "call_chat (send_video c f cap pm) = c"
| "call_chat (send_document c f cap pm) = c"
| "call_chat (send_animation c f cap pm) = c"
| "call_chat (send_audio c f cap pm) = c"
| "call_chat (send_voice c f cap pm) = c"
| "call_chat (send_message c t pm) = c"
| "call_chat (notify uid n) = User uid"

text \<open>What an album item carries.\<close>

fun item_kind :: "input_media \<Rightarrow> string" where
  "item_kind (InputMediaPhoto f cap pm) = ''photo''"
| "item_kind (InputMediaVideo f cap pm) = ''video''"

fun item_file :: "input_media \<Rightarrow> string" where
  "item_file (InputMediaPhoto f cap pm) = f"
| "item_file (InputMediaVideo f cap pm) = f"

fun item_caption :: "input_media \<Rightarrow> string option" where
  "item_caption (InputMediaPhoto f cap pm) = cap"
| "item_caption (InputMediaVideo f cap pm) = cap"

fun item_parse_mode :: "input_media \<Rightarrow> parse_mode option" where
  "item_parse_mode (InputMediaPhoto f cap pm) = pm"
| "item_parse_mode (InputMediaVideo f cap pm) = pm"



section \<open>The timer parser (app.py, lines 243-279)\<close>

subsection \<open>Python's \<open>datetime\<close>, as far as \<open>parse_when\<close> uses it\<close>

text \<open>
  Every \<open>datetime\<close> in \<open>parse_when\<close> carries the \<open>tzinfo\<close> object of \<open>now\<close>. Between two
  such values Python compares the wall-clock fields and ignores the zone, and adding a
  \<open>timedelta\<close> is wall-clock arithmetic, so a \<open>datetime\<close> is its seven fields here.
  The library raises \<open>ValueError\<close> for a field out of range and \<open>OverflowError\<close> for a
  result past year 9999 or a \<open>timedelta\<close> of more than 999999999 days.
\<close>

datatype py_error = ValueError | OverflowError

record datetime =
  year :: int
  month :: int
  day :: int
  hour :: int
  minute :: int
  second :: int
  microsecond :: int

definition is_leap :: "int \<Rightarrow> bool" where
  "is_leap y \<longleftrightarrow> y mod 4 = 0 \<and> (y mod 400 = 0 \<or> y mod 100 \<noteq> 0)"

definition days_in_month :: "int \<Rightarrow> int \<Rightarrow> int" where
  "days_in_month y m =
     (if m = 2 then (if is_leap y then 29 else 28)
      else if m = 4 \<or> m = 6 \<or> m = 9 \<or> m = 11 then 30 else 31)"

text \<open>The range checks of the \<open>datetime\<close> constructor.\<close>

definition valid_datetime :: "datetime \<Rightarrow> bool" where
  "valid_datetime dt \<longleftrightarrow>
     1 \<le> year dt \<and> year dt \<le> 9999 \<and> 1 \<le> month dt \<and> month dt \<le> 12 \<and>
     1 \<le> day dt \<and> day dt \<le> days_in_month (year dt) (month dt) \<and>
     0 \<le> hour dt \<and> hour dt \<le> 23 \<and> 0 \<le> minute dt \<and> minute dt \<le> 59 \<and>
     0 \<le> second dt \<and> second dt \<le> 59 \<and> 0 \<le> microsecond dt \<and> microsecond dt \<le> 999999"

text \<open>\<open>datetime(y, mo, d, hh, mm, tzinfo=now.tzinfo)\<close>\<close>

definition new_datetime :: "int \<Rightarrow> int \<Rightarrow> int \<Rightarrow> int \<Rightarrow> int \<Rightarrow> py_error + datetime" where
  "new_datetime y mo d hh mm =
     (let dt = \<lparr>year = y, month = mo, day = d, hour = hh, minute = mm,
                second = 0, microsecond = 0\<rparr>
      in if valid_datetime dt then Inr dt else Inl ValueError)"

text \<open>\<open>now.replace(hour=hh, minute=mm, second=0, microsecond=0)\<close>: a new value, checked
  like the constructor's.\<close>

definition replace_time :: "datetime \<Rightarrow> int \<Rightarrow> int \<Rightarrow> py_error + datetime" where
  "replace_time now hh mm =
     (let dt = now\<lparr>hour := hh, minute := mm, second := 0, microsecond := 0\<rparr>
      in if valid_datetime dt then Inr dt else Inl ValueError)"

text \<open>\<open>a <= b\<close>: the fields compared in order, most significant first.\<close>

fun fields_le :: "int list \<Rightarrow> int list \<Rightarrow> bool" where
  "fields_le [] ys = True"
| "fields_le (x # xs) [] = False"
| "fields_le (x # xs) (y # ys) = (x < y \<or> (x = y \<and> fields_le xs ys))"

definition dt_fields :: "datetime \<Rightarrow> int list" where
  "dt_fields dt = [year dt, month dt, day dt, hour dt, minute dt, second dt, microsecond dt]"

definition dt_le :: "datetime \<Rightarrow> datetime \<Rightarrow> bool" where
  "dt_le a b \<longleftrightarrow> fields_le (dt_fields a) (dt_fields b)"

text \<open>The calendar day after a date; there is none after 9999-12-31.\<close>

definition next_day :: "datetime \<Rightarrow> py_error + datetime" where
  "next_day dt =
     (if day dt < days_in_month (year dt) (month dt) then Inr (dt\<lparr>day := day dt + 1\<rparr>)
      else if month dt < 12 then Inr (dt\<lparr>month := month dt + 1, day := 1\<rparr>)
      else if year dt < 9999 then Inr (dt\<lparr>year := year dt + 1, month := 1, day := 1\<rparr>)
      else Inl OverflowError)"

fun add_days :: "nat \<Rightarrow> datetime \<Rightarrow> py_error + datetime" where
  "add_days 0 dt = Inr dt"
| "add_days (Suc n) dt = (case next_day dt of Inl e \<Rightarrow> Inl e | Inr dt' \<Rightarrow> add_days n dt')"

text \<open>
  \<open>timedelta(days=.., hours=.., minutes=..)\<close> for non-negative arguments, normalised to
  whole days and the seconds left over.
\<close>

definition timedelta :: "int \<Rightarrow> int \<Rightarrow> int \<Rightarrow> py_error + int \<times> int" where
  "timedelta days hours minutes =
     (let total = days * 86400 + hours * 3600 + minutes * 60
      in if total div 86400 > 999999999 then Inl OverflowError
         else Inr (total div 86400, total mod 86400))"

text \<open>\<open>dt + td\<close> for a non-negative \<open>td\<close>.\<close>

definition datetime_add :: "datetime \<Rightarrow> int \<times> int \<Rightarrow> py_error + datetime" where
  "datetime_add dt td =
     (let secs = hour dt * 3600 + minute dt * 60 + second dt + snd td;
          r = secs mod 86400
      in case add_days (nat (fst td + secs div 86400)) dt of
           Inl e \<Rightarrow> Inl e
         | Inr dt' \<Rightarrow> Inr (dt'\<lparr>hour := r div 3600, minute := r mod 3600 div 60,
                              second := r mod 60\<rparr>))"

subsection \<open>The three regular expressions\<close>

text \<open>
  A \<open>string\<close> is read as a sequence of code points below 256. There \<open>\d\<close> matches the ten
  ASCII digits and \<open>\s\<close> the twelve characters for which \<open>str.isspace\<close> holds.
\<close>

definition is_digit :: "char \<Rightarrow> bool" where
  "is_digit c \<longleftrightarrow> c \<in> set ''0123456789''"

definition is_space :: "char \<Rightarrow> bool" where
  "is_space c \<longleftrightarrow> c \<in> set [CHR 0x09, CHR 0x0A, CHR 0x0B, CHR 0x0C, CHR 0x0D, CHR 0x1C,
                            CHR 0x1D, CHR 0x1E, CHR 0x1F, CHR 0x20, CHR 0x85, CHR 0xA0]"

definition to_lower :: "char \<Rightarrow> char" where
  "to_lower c =
     (case map_of (zip ''ABCDEFGHIJKLMNOPQRSTUVWXYZ'' ''abcdefghijklmnopqrstuvwxyz'') c of
        Some l \<Rightarrow> l | None \<Rightarrow> c)"

text \<open>
  \<open>TIME_HHMM = ^\s*(\d{1,2}):(\d{2})\s*$\<close>, returning the two groups. The digits before
  the colon must be one or two: with three, neither length leaves a colon next.
\<close>

definition TIME_HHMM :: "string \<Rightarrow> (string \<times> string) option" where
  "TIME_HHMM s =
     (let r = dropWhile is_space s;
          g1 = takeWhile is_digit r
      in if length g1 = 1 \<or> length g1 = 2 then
           (case dropWhile is_digit r of
              [] \<Rightarrow> None
            | c # r2 \<Rightarrow>
                if c = CHR '':'' \<and> length (take 2 r2) = 2 \<and> list_all is_digit (take 2 r2)
                   \<and> list_all is_space (drop 2 r2)
                then Some (g1, take 2 r2) else None)
         else None)"

text \<open>
  \<open>TIME_ABS = ^\s*(\d{4})-(\d{2})-(\d{2})\s+(\d{1,2}):(\d{2})\s*$\<close>. After the date comes
  at least one space and then what \<open>TIME_HHMM\<close> matches.
\<close>

definition fixed_digits :: "nat \<Rightarrow> string \<Rightarrow> bool" where
  "fixed_digits n s \<longleftrightarrow> length (take n s) = n \<and> list_all is_digit (take n s)"

definition TIME_ABS :: "string \<Rightarrow> (string \<times> string \<times> string \<times> string \<times> string) option" where
  "TIME_ABS s =
     (let r = dropWhile is_space s
      in if fixed_digits 4 r \<and> take 1 (drop 4 r) = ''-'' \<and> fixed_digits 2 (drop 5 r)
            \<and> take 1 (drop 7 r) = ''-'' \<and> fixed_digits 2 (drop 8 r)
            \<and> list_all is_space (take 1 (drop 10 r)) \<and> drop 10 r \<noteq> []
         then (case TIME_HHMM (drop 10 r) of
                 None \<Rightarrow> None
               | Some (hh, mm) \<Rightarrow> Some (take 4 r, take 2 (drop 5 r), take 2 (drop 8 r), hh, mm))
         else None)"

text \<open>
  \<open>TIME_REL = ^\s*in\s+(\d+)\s*(m|min|h|hr|d)\s*$\<close> with \<open>re.IGNORECASE\<close>. The alternatives
  are tried in the order written; one is taken when only spaces follow it. The second
  component returned is \<open>m.group(2).lower()\<close>.
\<close>

definition unit_matches :: "string \<Rightarrow> string \<Rightarrow> bool" where
  "unit_matches r u \<longleftrightarrow>
     map to_lower (take (length u) r) = u \<and> list_all is_space (drop (length u) r)"

definition TIME_REL :: "string \<Rightarrow> (string \<times> string) option" where
  "TIME_REL s =
     (let r = dropWhile is_space s;
          r2 = dropWhile is_space (drop 2 r);
          g1 = takeWhile is_digit r2;
          r3 = dropWhile is_space (dropWhile is_digit r2)
      in if map to_lower (take 2 r) = ''in'' \<and> drop 2 r \<noteq> []
            \<and> list_all is_space (take 1 (drop 2 r)) \<and> g1 \<noteq> []
         then (case filter (unit_matches r3) [''m'', ''min'', ''h'', ''hr'', ''d''] of
                 [] \<Rightarrow> None
               | u # _ \<Rightarrow> Some (g1, u))
         else None)"

subsection \<open>\<open>parse_when\<close>\<close>

text \<open>
  \<open>int(m.group(i))\<close> on a string of ASCII digits. Since Python 3.11 \<open>int\<close> raises
  \<open>ValueError\<close> for more than 4300 digits.
\<close>

definition digit_value :: "char \<Rightarrow> int" where
  "digit_value c = int (of_char c) - 48"

definition py_int :: "string \<Rightarrow> py_error + int" where
  "py_int ds =
     (if length ds > 4300 then Inl ValueError
      else Inr (foldl (\<lambda>a c. 10 * a + digit_value c) 0 ds))"

text \<open>Sequencing: an exception raised by the first step is the result.\<close>

definition and_then :: "'e + 'a \<Rightarrow> ('a \<Rightarrow> 'e + 'b) \<Rightarrow> 'e + 'b" where
  "and_then r f = (case r of Inl e \<Rightarrow> Inl e | Inr x \<Rightarrow> f x)"

text \<open>
  \<open>parse_when\<close>: \<open>Inl\<close> is an exception leaving the function, \<open>Inr None\<close> the return value
  \<open>None\<close>. Only the constructor call of the second grammar sits in a \<open>try\<close>.
\<close>

definition parse_when :: "string \<Rightarrow> datetime \<Rightarrow> py_error + datetime option" where
  "parse_when s now =
     (case TIME_HHMM s of
        Some (g1, g2) \<Rightarrow>
          and_then (py_int g1) (\<lambda>hh. and_then (py_int g2) (\<lambda>mm.
          and_then (replace_time now hh mm) (\<lambda>dt.
            if dt_le dt now
            then and_then (timedelta 1 0 0) (\<lambda>td.
                 and_then (datetime_add dt td) (\<lambda>dt'. Inr (Some dt')))
            else Inr (Some dt))))
      | None \<Rightarrow>
     (case TIME_ABS s of
        Some (gy, gmo, gd, ghh, gmm) \<Rightarrow>
          and_then (py_int gy) (\<lambda>y. and_then (py_int gmo) (\<lambda>mo. and_then (py_int gd) (\<lambda>d.
          and_then (py_int ghh) (\<lambda>hh. and_then (py_int gmm) (\<lambda>mm.
            case new_datetime y mo d hh mm of
              Inl ValueError \<Rightarrow> Inr None
            | Inl e \<Rightarrow> Inl e
            | Inr dt \<Rightarrow> Inr (Some dt))))))
      | None \<Rightarrow>
     (case TIME_REL s of
        Some (g1, unit) \<Rightarrow>
          and_then (py_int g1) (\<lambda>amount.
            if unit = ''m'' \<or> unit = ''min'' then
              and_then (timedelta 0 0 amount) (\<lambda>td.
              and_then (datetime_add now td) (\<lambda>dt. Inr (Some dt)))
            else if unit = ''h'' \<or> unit = ''hr'' then
              and_then (timedelta 0 amount 0) (\<lambda>td.
              and_then (datetime_add now td) (\<lambda>dt. Inr (Some dt)))
            else if unit = ''d'' then
              and_then (timedelta amount 0 0) (\<lambda>td.
              and_then (datetime_add now td) (\<lambda>dt. Inr (Some dt)))
            else Inr None)
      | None \<Rightarrow> Inr None)))"


section \<open>The draft store, the scheduler and the handlers (app.py, lines 81-99 and 320-511)\<close>

subsection \<open>Objects and references\<close>

text \<open>
  A \<open>Draft\<close> instance and the list in its \<open>media\<close> field are mutable objects that several
  variables may refer to, so they live in a store and are named by references.
  \<open>draft_heap\<close> holds the \<open>Draft\<close> instances, \<open>list_heap\<close> the list objects; \<open>next_ref\<close> is
  the next unused reference of both. Strings and tuples are immutable and are plain values.
\<close>

type_synonym ref = nat

record draft_obj =
  obj_text :: string
  obj_media :: ref

text \<open>
  An \<open>asyncio.Task\<close> running the closure \<open>job\<close> of \<open>cmd_timer\<close>, with the variables the
  closure captures: \<open>uid\<close>, \<open>when\<close> and \<open>draft\<close>. It is \<open>Pending\<close> until its body has run,
  \<open>CancelRequested\<close> after \<open>cancel()\<close> and \<open>Finished\<close> when \<open>done()\<close> is true.
\<close>

datatype task_status = Pending | CancelRequested | Finished

record task =
  job_uid :: int
  job_when :: datetime
  job_draft :: ref
  status :: task_status

text \<open>\<open>ScheduledJob(when, task)\<close>; \<open>when\<close> is an Isar keyword, hence the prefix.\<close>

record ScheduledJob =
  sched_when :: datetime
  sched_task :: nat

text \<open>
  The process state: the store, the two module-level dictionaries, the tasks of the event
  loop, and the log of the bot calls made by the publishing paths (\<open>on_cb\<close> and \<open>job\<close>),
  each with whether it returned (\<open>True\<close>) or raised (\<open>False\<close>).
\<close>

record state =
  draft_heap :: "ref \<Rightarrow> draft_obj"
  list_heap :: "ref \<Rightarrow> media_entry list"
  next_ref :: ref
  DRAFTS :: "int \<rightharpoonup> ref"
  SCHEDULES :: "int \<rightharpoonup> ScheduledJob"
  tasks :: "nat \<rightharpoonup> task"
  next_task :: nat
  calls :: "(bot_call \<times> bool) list"

definition init :: state where
  "init = \<lparr>draft_heap = (\<lambda>_. \<lparr>obj_text = [], obj_media = 0\<rparr>), list_heap = (\<lambda>_. []),
           next_ref = 0, DRAFTS = Map.empty, SCHEDULES = Map.empty, tasks = Map.empty,
           next_task = 0, calls = []\<rparr>"

text \<open>A new list object holding \<open>xs\<close>.\<close>

definition new_list :: "state \<Rightarrow> media_entry list \<Rightarrow> state \<times> ref" where
  "new_list s xs =
     (s\<lparr>list_heap := (list_heap s)(next_ref s := xs), next_ref := Suc (next_ref s)\<rparr>,
      next_ref s)"

text \<open>A new \<open>Draft\<close> instance with the given text and media reference.\<close>

definition new_draft_obj :: "state \<Rightarrow> string \<Rightarrow> ref \<Rightarrow> state \<times> ref" where
  "new_draft_obj s t l =
     (s\<lparr>draft_heap := (draft_heap s)(next_ref s := \<lparr>obj_text = t, obj_media = l\<rparr>),
        next_ref := Suc (next_ref s)\<rparr>,
      next_ref s)"

text \<open>\<open>Draft()\<close>: the default factory makes a new empty list for each instance.\<close>

definition Draft_new :: "state \<Rightarrow> state \<times> ref" where
  "Draft_new s = (case new_list s [] of (s1, l) \<Rightarrow> new_draft_obj s1 [] l)"

text \<open>The value a \<open>Draft\<close> reference stands for at a given moment.\<close>

definition read_draft :: "state \<Rightarrow> ref \<Rightarrow> draft" where
  "read_draft s a =
     \<lparr>dtext = obj_text (draft_heap s a), media = list_heap s (obj_media (draft_heap s a))\<rparr>"

text \<open>\<open>Draft.copy\<close>: \<open>Draft(text=self.text, media=list(self.media))\<close>.\<close>

definition copy :: "state \<Rightarrow> ref \<Rightarrow> state \<times> ref" where
  "copy s a =
     (case new_list s (list_heap s (obj_media (draft_heap s a))) of
        (s1, l) \<Rightarrow> new_draft_obj s1 (obj_text (draft_heap s1 a)) l)"

definition get_draft :: "state \<Rightarrow> int \<Rightarrow> state \<times> ref" where
  "get_draft s user_id =
     (case DRAFTS s user_id of
        Some a \<Rightarrow> (s, a)
      | None \<Rightarrow> (case Draft_new s of (s1, a) \<Rightarrow> (s1\<lparr>DRAFTS := (DRAFTS s1)(user_id \<mapsto> a)\<rparr>, a)))"

text \<open>
  \<open>set_text_from\<close>. Its second argument is what the update carries: \<open>None\<close> when the
  message has neither text nor caption, else the text or caption with the command entity
  cut off and the ends stripped.
\<close>

definition set_text_from :: "state \<Rightarrow> string option \<Rightarrow> ref \<Rightarrow> state" where
  "set_text_from s carried a =
     (case carried of
        None \<Rightarrow> s
      | Some t \<Rightarrow> s\<lparr>draft_heap := (draft_heap s)(a := (draft_heap s a)\<lparr>obj_text := t\<rparr>)\<rparr>)"

text \<open>
  \<open>add_media_to_draft\<close> on the store: \<open>append\<close> changes the list object in place; the slice
  and \<open>list(reversed(new_media))\<close> are new list objects, assigned to the \<open>media\<close> field.
  (The local list \<open>new_media\<close> itself is dropped on return and gets no reference here.)
\<close>

definition add_media_to_draft_at :: "state \<Rightarrow> ref \<Rightarrow> string \<Rightarrow> string \<Rightarrow> state" where
  "add_media_to_draft_at s a kind file_id =
     (let l = obj_media (draft_heap s a);
          s1 = s\<lparr>list_heap := (list_heap s)(l := list_heap s l @ [(kind, file_id)])\<rparr>;
          replacement = (if is_pv kind then slice_last 10 (list_heap s1 l)
                         else rev (collapse (rev (list_heap s1 l)) {} []))
      in case new_list s1 replacement of
           (s2, l') \<Rightarrow> s2\<lparr>draft_heap := (draft_heap s2)(a := (draft_heap s2 a)\<lparr>obj_media := l'\<rparr>)\<rparr>)"

subsection \<open>Tasks\<close>

definition task_done :: "state \<Rightarrow> nat \<Rightarrow> bool" where
  "task_done s t \<longleftrightarrow> (case tasks s t of None \<Rightarrow> True | Some T \<Rightarrow> status T = Finished)"

text \<open>\<open>task.cancel()\<close>: the request stays with the task until the event loop runs it.\<close>

definition task_cancel :: "state \<Rightarrow> nat \<Rightarrow> state" where
  "task_cancel s t =
     (case tasks s t of
        None \<Rightarrow> s
      | Some T \<Rightarrow> if status T = Pending
                  then s\<lparr>tasks := (tasks s)(t \<mapsto> T\<lparr>status := CancelRequested\<rparr>)\<rparr> else s)"

text \<open>\<open>if sched and not sched.task.done(): sched.task.cancel()\<close>\<close>

definition cancel_if_pending :: "state \<Rightarrow> ScheduledJob option \<Rightarrow> state" where
  "cancel_if_pending s sched =
     (case sched of
        None \<Rightarrow> s
      | Some j \<Rightarrow> if \<not> task_done s (sched_task j) then task_cancel s (sched_task j) else s)"

definition create_task :: "state \<Rightarrow> int \<Rightarrow> datetime \<Rightarrow> ref \<Rightarrow> state \<times> nat" where
  "create_task s uid w d =
     (s\<lparr>tasks := (tasks s)(next_task s \<mapsto>
           \<lparr>job_uid = uid, job_when = w, job_draft = d, status = Pending\<rparr>),
        next_task := Suc (next_task s)\<rparr>,
      next_task s)"

definition called :: "state \<Rightarrow> bot_call \<Rightarrow> bool \<Rightarrow> state" where
  "called s c ok = s\<lparr>calls := calls s @ [(c, ok)]\<rparr>"

subsection \<open>Handlers\<close>

definition ADMIN_USER_ID :: int where
  "ADMIN_USER_ID = 211779388"

definition authorized :: "int \<Rightarrow> bool" where
  "authorized user_id \<longleftrightarrow> user_id = ADMIN_USER_ID"

text \<open>
  A handler takes the state and what the update carries and returns the state it leaves.
  An exception leaving a handler is caught by the framework; the state is then the one
  reached when it was raised. Replies that are the last action of a path, or that are
  followed by \<open>return\<close> only, cannot change the state and are not in the model.
\<close>

definition on_text :: "state \<Rightarrow> int \<Rightarrow> string option \<Rightarrow> state" where
  "on_text s uid carried =
     (if \<not> authorized uid then s
      else case get_draft s uid of (s1, d) \<Rightarrow> set_text_from s1 carried d)"

text \<open>
  The common body of \<open>on_photo\<close>, \<open>on_video\<close>, \<open>on_document\<close>, \<open>on_animation\<close>, \<open>on_audio\<close>
  and \<open>on_voice\<close>; they differ in the kind literal and in where the file id is read.
\<close>

definition on_media :: "string \<Rightarrow> state \<Rightarrow> int \<Rightarrow> string \<Rightarrow> string option \<Rightarrow> state" where
  "on_media kind s uid file_id carried =
     (if \<not> authorized uid then s
      else case get_draft s uid of
             (s1, d) \<Rightarrow> set_text_from (add_media_to_draft_at s1 d kind file_id) carried d)"

definition on_photo :: "state \<Rightarrow> int \<Rightarrow> string \<Rightarrow> string option \<Rightarrow> state" where
  "on_photo = on_media ''photo''"

definition on_video :: "state \<Rightarrow> int \<Rightarrow> string \<Rightarrow> string option \<Rightarrow> state" where
  "on_video = on_media ''video''"

definition on_document :: "state \<Rightarrow> int \<Rightarrow> string \<Rightarrow> string option \<Rightarrow> state" where
  "on_document = on_media ''document''"

definition on_animation :: "state \<Rightarrow> int \<Rightarrow> string \<Rightarrow> string option \<Rightarrow> state" where
  "on_animation = on_media ''animation''"

definition on_audio :: "state \<Rightarrow> int \<Rightarrow> string \<Rightarrow> string option \<Rightarrow> state" where
  "on_audio = on_media ''audio''"

definition on_voice :: "state \<Rightarrow> int \<Rightarrow> string \<Rightarrow> string option \<Rightarrow> state" where
  "on_voice = on_media ''voice''"

text \<open>\<open>" ".join(context.args)\<close>\<close>

fun join_args :: "string list \<Rightarrow> string" where
  "join_args [] = []"
| "join_args [a] = a"
| "join_args (a # b # rest) = a @ '' '' @ join_args (b # rest)"

text \<open>
  \<open>cmd_timer\<close>; \<open>now\<close> is the value of \<open>datetime.now(LOCAL_TZ)\<close>. An exception of
  \<open>parse_when\<close> leaves the handler before anything is changed. Every \<open>datetime\<close> is truthy,
  so \<open>if not when\<close> is the test for \<open>None\<close>.
\<close>

definition cmd_timer :: "state \<Rightarrow> int \<Rightarrow> string list \<Rightarrow> datetime \<Rightarrow> state" where
  "cmd_timer s uid args now =
     (if \<not> authorized uid then s
      else if args = [] then s
      else case parse_when (join_args args) now of
        Inl e \<Rightarrow> s
      | Inr None \<Rightarrow> s
      | Inr (Some w) \<Rightarrow>
         (case get_draft s uid of (s1, live) \<Rightarrow>
          case copy s1 live of (s2, d) \<Rightarrow>
            if is_empty (read_draft s2 d) then s2
            else
              let s3 = cancel_if_pending s2 (SCHEDULES s2 uid)
              in case create_task s3 uid w d of
                   (s4, t) \<Rightarrow>
                     s4\<lparr>SCHEDULES := (SCHEDULES s4)(uid \<mapsto> \<lparr>sched_when = w, sched_task = t\<rparr>)\<rparr>))"

text \<open>
  The body of the closure \<open>job\<close>, run by the event loop when the task's sleep is over (or
  at once when the delay is not positive). The three flags are the outcomes of the calls
  it awaits: the publish, the confirmation to the operator, and the error message of the
  \<open>except Exception\<close> branch. A task whose cancellation was requested gets
  \<open>CancelledError\<close>, which the body swallows. The body is one step here: what another
  handler does while the publish call is in flight is not modelled.
\<close>

record job_io =
  job_publish_ok :: bool
  confirm_ok :: bool
  report_ok :: bool

definition job :: "state \<Rightarrow> nat \<Rightarrow> job_io \<Rightarrow> state" where
  "job s t io =
     (case tasks s t of
        None \<Rightarrow> s
      | Some T \<Rightarrow>
         (case status T of
            Finished \<Rightarrow> s
          | CancelRequested \<Rightarrow> s\<lparr>tasks := (tasks s)(t \<mapsto> T\<lparr>status := Finished\<rparr>)\<rparr>
          | Pending \<Rightarrow>
             (let s0 = s\<lparr>tasks := (tasks s)(t \<mapsto> T\<lparr>status := Finished\<rparr>)\<rparr>;
                  s1 = called s0 (publish_to_channel (read_draft s0 (job_draft T)))
                         (job_publish_ok io)
              in if job_publish_ok io then
                   (let s2 = called s1 (notify (job_uid T) Published_by_timer) (confirm_ok io)
                    in if confirm_ok io
                       then s2\<lparr>SCHEDULES := (SCHEDULES s2)(job_uid T := None)\<rparr>
                       else called s2 (notify (job_uid T) Scheduled_publish_error) (report_ok io))
                 else called s1 (notify (job_uid T) Scheduled_publish_error) (report_ok io))))"

definition cmd_cancel_timer :: "state \<Rightarrow> int \<Rightarrow> state" where
  "cmd_cancel_timer s uid =
     (if \<not> authorized uid then s
      else cancel_if_pending (s\<lparr>SCHEDULES := (SCHEDULES s)(uid := None)\<rparr>) (SCHEDULES s uid))"

text \<open>\<open>cmd_when\<close> only replies; its answer is the \<open>when\<close> of the registered job, if any.\<close>

definition cmd_when :: "state \<Rightarrow> int \<Rightarrow> datetime option" where
  "cmd_when s uid =
     (if \<not> authorized uid then None else map_option sched_when (SCHEDULES s uid))"

text \<open>
  \<open>on_cb\<close>, with the outcomes of the calls it awaits: \<open>q.answer()\<close>, the publish, the
  \<open>edit_message_text\<close> that confirms, and the \<open>edit_message_text\<close> of the \<open>except\<close> branch.
  \<open>send_preview\<close> sends to the operator only and changes nothing.
\<close>

record cb_io =
  answer_ok :: bool
  publish_ok :: bool
  edit_ok :: bool
  error_edit_ok :: bool

definition on_cb :: "state \<Rightarrow> int \<Rightarrow> string \<Rightarrow> cb_io \<Rightarrow> state" where
  "on_cb s uid data io =
     (if \<not> answer_ok io then s
      else if \<not> authorized uid then s
      else case get_draft s uid of (s1, d) \<Rightarrow>
        if data = ''noop'' then s1
        else if data = ''prev'' then s1
        else if data = ''pub'' then
          (if is_empty (read_draft s1 d) then called s1 (notify uid Nothing_to_publish) (edit_ok io)
           else
             let s2 = called s1 (publish_to_channel (read_draft s1 d)) (publish_ok io)
             in if \<not> publish_ok io then called s2 (notify uid Publish_error) (error_edit_ok io)
                else
                  let s3 = called s2 (notify uid Published) (edit_ok io)
                  in if \<not> edit_ok io then called s3 (notify uid Publish_error) (error_edit_ok io)
                     else case Draft_new s3 of (s4, fresh) \<Rightarrow>
                       let s5 = s4\<lparr>DRAFTS := (DRAFTS s4)(uid \<mapsto> fresh)\<rparr>
                       in cancel_if_pending (s5\<lparr>SCHEDULES := (SCHEDULES s5)(uid := None)\<rparr>)
                            (SCHEDULES s5 uid))
        else if data = ''clr'' then
          (case Draft_new s1 of (s2, fresh) \<Rightarrow>
             let s3 = called (s2\<lparr>DRAFTS := (DRAFTS s2)(uid \<mapsto> fresh)\<rparr>)
                        (notify uid Draft_cleared) (edit_ok io)
             in if \<not> edit_ok io then s3
                else cancel_if_pending (s3\<lparr>SCHEDULES := (SCHEDULES s3)(uid := None)\<rparr>)
                       (SCHEDULES s3 uid))
        else s1)"

subsection \<open>Runs\<close>

text \<open>What can happen to the process: an update reaches a handler, or the event loop runs a task.\<close>

datatype event =
    Text_update int "string option"
  | Media_update string int string "string option"
  | Timer_command int "string list" datetime
  | Cancel_timer_command int
  | When_command int
  | Callback int string cb_io
  | Task_runs nat job_io

text \<open>
  The kind of a \<open>Media_update\<close> stands for the handler that receives it; an update with
  any other kind finds no handler.
\<close>

fun step :: "state \<Rightarrow> event \<Rightarrow> state" where
  "step s (Text_update uid carried) = on_text s uid carried"
| "step s (Media_update kind uid file_id carried) =
     (if known_kind kind then on_media kind s uid file_id carried else s)"
| "step s (Timer_command uid args now) = cmd_timer s uid args now"
| "step s (Cancel_timer_command uid) = cmd_cancel_timer s uid"
| "step s (When_command uid) = s"
| "step s (Callback uid data io) = on_cb s uid data io"
| "step s (Task_runs t io) = job s t io"

definition run :: "state \<Rightarrow> event list \<Rightarrow> state" where
  "run s es = foldl step s es"

text \<open>
  Well-formed states: every reference in use is below \<open>next_ref\<close>, every task id in use
  below \<open>next_task\<close>, a registered job names an existing task, and no draft captured by a
  task shares its instance or its list with a draft of the store.
\<close>

definition wf_state :: "state \<Rightarrow> bool" where
  "wf_state s \<longleftrightarrow>
     (\<forall>u a. DRAFTS s u = Some a \<longrightarrow> a < next_ref s \<and> obj_media (draft_heap s a) < next_ref s) \<and>
     (\<forall>u j. SCHEDULES s u = Some j \<longrightarrow> tasks s (sched_task j) \<noteq> None) \<and>
     (\<forall>t T. tasks s t = Some T \<longrightarrow>
        t < next_task s \<and> job_draft T < next_ref s \<and>
        obj_media (draft_heap s (job_draft T)) < next_ref s \<and>
        (\<forall>u a. DRAFTS s u = Some a \<longrightarrow>
           a \<noteq> job_draft T \<and>
           obj_media (draft_heap s a) \<noteq> obj_media (draft_heap s (job_draft T))))"

text \<open>
  A draft instance that nothing in the store refers to yet, as \<open>copy\<close> returns it.
\<close>

definition detached :: "state \<Rightarrow> ref \<Rightarrow> bool" where
  "detached s d \<longleftrightarrow>
     d < next_ref s \<and> obj_media (draft_heap s d) < next_ref s \<and>
     (\<forall>u a. DRAFTS s u = Some a \<longrightarrow>
        a \<noteq> d \<and> obj_media (draft_heap s a) \<noteq> obj_media (draft_heap s d))"

text \<open>
  What a later state keeps of an earlier one: every task is still there with the same
  captured variables, a task that was not pending is not pending, and the draft a task
  captured reads as it did.
\<close>

definition same_job :: "task \<Rightarrow> task \<Rightarrow> bool" where
  "same_job T T' \<longleftrightarrow>
     job_uid T' = job_uid T \<and> job_when T' = job_when T \<and> job_draft T' = job_draft T \<and>
     (status T \<noteq> Pending \<longrightarrow> status T' \<noteq> Pending)"

definition frame :: "state \<Rightarrow> state \<Rightarrow> bool" where
  "frame s s' \<longleftrightarrow>
     wf_state s' \<and>
     (\<forall>t T. tasks s t = Some T \<longrightarrow>
        (\<exists>T'. tasks s' t = Some T' \<and> same_job T T' \<and>
              read_draft s' (job_draft T) = read_draft s (job_draft T)))"

text \<open>The draft \<open>get_draft(uid)\<close> returns, as a value.\<close>

definition live :: "state \<Rightarrow> int \<Rightarrow> draft" where
  "live s uid = (case get_draft s uid of (s1, d) \<Rightarrow> read_draft s1 d)"

text \<open>What holds of the store in every state a run reaches (see \<open>store_ok_run\<close>).\<close>

definition store_ok :: "state \<Rightarrow> bool" where
  "store_ok s \<longleftrightarrow>
     wf_state s \<and> dom (DRAFTS s) \<subseteq> {ADMIN_USER_ID} \<and> draft_ok (live s ADMIN_USER_ID)"

text \<open>The calls of the log that returned and were addressed to the channel.\<close>

definition published :: "state \<Rightarrow> bot_call list" where
  "published s = map fst (filter (\<lambda>(c, ok). ok \<and> call_chat c = TARGET_CHAT) (calls s))"


subsection \<open>Example runs\<close>

text \<open>
  The operator sends a text, schedules it five minutes ahead and then replaces the text;
  task 0 is pending.
\<close>

definition scheduled_then_edited :: state where
  "scheduled_then_edited = run init
       [Text_update ADMIN_USER_ID (Some ''first''),
        Timer_command ADMIN_USER_ID [''in'', ''5m'']
          \<lparr>year = 2025, month = 1, day = 1, hour = 20, minute = 0, second = 0, microsecond = 0\<rparr>,
        Text_update ADMIN_USER_ID (Some ''second'')]"

text \<open>The operator schedules a text and the task runs; the publish call raises.\<close>

definition run_failed :: state where
  "run_failed = run init
       [Text_update ADMIN_USER_ID (Some ''hello''),
        Timer_command ADMIN_USER_ID [''in'', ''5m'']
          \<lparr>year = 2025, month = 1, day = 1, hour = 20, minute = 0, second = 0, microsecond = 0\<rparr>,
        Task_runs 0 \<lparr>job_publish_ok = False, confirm_ok = True, report_ok = True\<rparr>]"

text \<open>The same with every call returning.\<close>

definition run_fired :: state where
  "run_fired = run init
       [Text_update ADMIN_USER_ID (Some ''hello''),
        Timer_command ADMIN_USER_ID [''in'', ''5m'']
          \<lparr>year = 2025, month = 1, day = 1, hour = 20, minute = 0, second = 0, microsecond = 0\<rparr>,
        Task_runs 0 \<lparr>job_publish_ok = True, confirm_ok = True, report_ok = True\<rparr>]"


section \<open>Properties of the media aggregator\<close>

lemma slice_last_append: "slice_last n (slice_last n xs @ ys) = slice_last n (xs @ ys)"
proof (cases "length xs \<le> n")
  case True
  then show ?thesis by (simp add: slice_last_def)
next
  case False
  define a where "a = length xs - n"
  from False have len: "length xs = a + n" by (simp add: a_def)
  have "slice_last n (slice_last n xs @ ys) = drop (length ys) (drop a xs @ ys)"
    by (simp add: slice_last_def len)
  also have "drop a xs @ ys = drop a (xs @ ys)" by (simp add: len)
  also have "drop (length ys) (drop a (xs @ ys)) = drop (length ys + a) (xs @ ys)"
    by (rule drop_drop)
  also have "\<dots> = slice_last n (xs @ ys)"
    by (simp add: slice_last_def len add.commute)
  finally show ?thesis .
qed

lemma collapse_keep: "collapse ys seen acc = acc @ keep ys seen"
  by (induction ys seen acc rule: collapse.induct) simp_all

lemma keep_pv: "filter (\<lambda>e. is_pv (fst e)) (keep ys seen) = filter (\<lambda>e. is_pv (fst e)) ys"
  by (induction ys seen rule: keep.induct) simp_all

lemma keep_kind:
  "\<not> is_pv k \<Longrightarrow> filter (\<lambda>e. fst e = k) (keep ys seen) =
     (if k \<in> seen then [] else take 1 (filter (\<lambda>e. fst e = k) ys))"
  by (induction ys seen rule: keep.induct) auto

lemma keep_distinct:
  "distinct (map fst (filter (\<lambda>e. \<not> is_pv (fst e)) ys)) \<Longrightarrow>
   keep ys seen = filter (\<lambda>e. is_pv (fst e) \<or> fst e \<notin> seen) ys"
proof (induction ys seen rule: keep.induct)
  case (1 seen)
  then show ?case by simp
next
  case (2 k fid rest seen)
  show ?case
  proof (cases "is_pv k")
    case True
    with 2 show ?thesis by simp
  next
    case npv: False
    show ?thesis
    proof (cases "k \<in> seen")
      case True
      with npv 2 show ?thesis by simp
    next
      case False
      from npv "2.prems" have notin: "\<forall>e \<in> set rest. \<not> is_pv (fst e) \<longrightarrow> fst e \<noteq> k"
        by auto
      then have "filter (\<lambda>e. is_pv (fst e) \<or> fst e \<notin> insert k seen) rest
               = filter (\<lambda>e. is_pv (fst e) \<or> fst e \<notin> seen) rest"
        by (intro filter_cong) auto
      with npv False 2 show ?thesis by simp
    qed
  qed
qed

lemma slice_last_length: "length (slice_last n xs) \<le> n"
  by (simp add: slice_last_def)

lemma add_all_pv_media:
  "\<forall>e \<in> set es. is_pv (fst e) \<Longrightarrow> length (media d) \<le> 10 \<Longrightarrow>
   media (add_all d es) = slice_last 10 (media d @ es)"
proof (induction d es rule: add_all.induct)
  case (1 d)
  then show ?case by (simp add: slice_last_def)
next
  case (2 d k fid es)
  then show ?case by (simp add: add_media_to_draft_def slice_last_length) (metis slice_last_append append_Cons append_Nil append_assoc)
qed


lemma add_single_media:
  "\<not> is_pv kind \<Longrightarrow>
   media (add_media_to_draft d kind fid) = rev (keep (rev (media d)) {kind}) @ [(kind, fid)]"
  by (simp add: add_media_to_draft_def collapse_keep)

lemma add_single_kind:
  assumes "\<not> is_pv kind"
  shows "filter (\<lambda>e. fst e = kind) (media (add_media_to_draft d kind fid)) = [(kind, fid)]"
  using assms by (simp add: add_single_media keep_kind flip: rev_filter)

lemma add_single_pv:
  assumes "\<not> is_pv kind"
  shows "filter (\<lambda>e. is_pv (fst e)) (media (add_media_to_draft d kind fid))
       = filter (\<lambda>e. is_pv (fst e)) (media d)"
  using assms by (simp add: add_single_media keep_pv flip: rev_filter)

lemma add_single_others:
  assumes "\<not> is_pv kind" and "singles_distinct (media d)"
  shows "media (add_media_to_draft d kind fid) = filter (\<lambda>e. fst e \<noteq> kind) (media d) @ [(kind, fid)]"
proof -
  from assms(2) have "distinct (map fst (filter (\<lambda>e. \<not> is_pv (fst e)) (rev (media d))))"
    by (simp add: singles_distinct_def flip: rev_filter rev_map)
  then have "keep (rev (media d)) {kind}
           = filter (\<lambda>e. is_pv (fst e) \<or> fst e \<notin> {kind}) (rev (media d))"
    by (rule keep_distinct)
  also have "\<dots> = filter (\<lambda>e. fst e \<noteq> kind) (rev (media d))"
    using assms(1) by (intro filter_cong) auto
  finally show ?thesis using assms(1) by (simp add: add_single_media rev_filter)
qed

lemma pv_not_single: "k \<in> {''document'', ''animation'', ''audio'', ''voice''} \<Longrightarrow> \<not> is_pv k"
  by (auto simp: is_pv_def)

lemma singles_distinct_drop:
  assumes "singles_distinct xs"
  shows "singles_distinct (drop n xs)"
proof -
  have "distinct (map fst (filter (\<lambda>e. \<not> is_pv (fst e)) (take n xs @ drop n xs)))"
    using assms by (simp add: singles_distinct_def)
  then show ?thesis
    unfolding singles_distinct_def filter_append map_append distinct_append by simp
qed

lemma singles_distinct_add:
  assumes "singles_distinct (media d)"
  shows "singles_distinct (media (add_media_to_draft d k fid))"
proof (cases "is_pv k")
  case True
  then have "singles_distinct (media d @ [(k, fid)])"
    using assms by (simp add: singles_distinct_def)
  then have "singles_distinct (slice_last 10 (media d @ [(k, fid)]))"
    unfolding slice_last_def by (rule singles_distinct_drop)
  then show ?thesis
    using True by (simp add: add_media_to_draft_def)
next
  case False
  have "distinct (map fst (filter (\<lambda>e. fst e \<noteq> k) (filter (\<lambda>e. \<not> is_pv (fst e)) (media d))))"
    using assms unfolding singles_distinct_def by (rule distinct_map_filter)
  moreover have "filter (\<lambda>e. fst e \<noteq> k) (filter (\<lambda>e. \<not> is_pv (fst e)) (media d))
        = filter (\<lambda>e. \<not> is_pv (fst e)) (filter (\<lambda>e. fst e \<noteq> k) (media d))"
    by (simp add: conj_commute)
  ultimately show ?thesis
    using False by (auto simp: add_single_others [OF False assms] singles_distinct_def)
qed

lemma singles_distinct_add_all:
  "singles_distinct (media d) \<Longrightarrow> singles_distinct (media (add_all d es))"
  by (induction d es rule: add_all.induct) (simp_all add: singles_distinct_add)


lemma draft_ok_empty: "draft_ok Draft"
  by (simp add: draft_ok_def Draft_def singles_distinct_def)

lemma keep_subset: "set (keep ys seen) \<subseteq> set ys"
  by (induction ys seen rule: keep.induct) auto

lemma draft_ok_add:
  assumes "draft_ok d" and "known_kind k"
  shows "draft_ok (add_media_to_draft d k f)"
proof -
  have sd: "singles_distinct (media (add_media_to_draft d k f))"
    using assms(1) by (simp add: draft_ok_def singles_distinct_add)
  have kk: "list_all (\<lambda>e. known_kind (fst e)) (media (add_media_to_draft d k f))"
  proof (cases "is_pv k")
    case True
    have "list_all (\<lambda>e. known_kind (fst e)) (media d @ [(k, f)])"
      using assms by (simp add: draft_ok_def)
    then have "list_all (\<lambda>e. known_kind (fst e)) (slice_last 10 (media d @ [(k, f)]))"
      unfolding slice_last_def list_all_iff by (meson in_set_dropD)
    then show ?thesis using True by (simp add: add_media_to_draft_def)
  next
    case False
    then show ?thesis
      using assms keep_subset [of "rev (media d)" "{k}"]
      by (auto simp: add_single_media draft_ok_def list_all_iff)
  qed
  have n: "length (filter (\<lambda>e. is_pv (fst e)) (media (add_media_to_draft d k f))) \<le> 10"
  proof (cases "is_pv k")
    case True
    have "length (filter (\<lambda>e. is_pv (fst e)) (slice_last 10 (media d @ [(k, f)])))
          \<le> length (slice_last 10 (media d @ [(k, f)]))"
      by (rule length_filter_le)
    also have "\<dots> \<le> 10" by (rule slice_last_length)
    finally show ?thesis using True by (simp add: add_media_to_draft_def)
  next
    case False
    then show ?thesis using assms(1) by (simp add: add_single_pv draft_ok_def)
  qed
  show ?thesis unfolding draft_ok_def using sd kk n by simp
qed

text \<open>
  Claim C1, at an input where the code departs from it. A draft built from the empty one
  by a document and nine photos holds nine photo/video entries. Adding a tenth photo makes
  ten, which does not exceed the limit, yet the call drops the document: the slice
  \<open>draft.media[-10:]\<close> counts every entry of the list, not only the photos and videos.
  For the same reason eleven photos around a document leave nine photos and the document,
  not ten photos.
\<close>

theorem add_photo_evicts_document:
  "media (add_all Draft [(''document'', ''d''), (''photo'', ''1''), (''photo'', ''2''),
      (''photo'', ''3''), (''photo'', ''4''), (''photo'', ''5''), (''photo'', ''6''),
      (''photo'', ''7''), (''photo'', ''8''), (''photo'', ''9'')])
   = [(''document'', ''d''), (''photo'', ''1''), (''photo'', ''2''),
      (''photo'', ''3''), (''photo'', ''4''), (''photo'', ''5''), (''photo'', ''6''),
      (''photo'', ''7''), (''photo'', ''8''), (''photo'', ''9'')]
  \<and> media (add_media_to_draft (add_all Draft [(''document'', ''d''), (''photo'', ''1''),
      (''photo'', ''2''), (''photo'', ''3''), (''photo'', ''4''), (''photo'', ''5''),
      (''photo'', ''6''), (''photo'', ''7''), (''photo'', ''8''), (''photo'', ''9'')])
      ''photo'' ''10'')
   = [(''photo'', ''1''), (''photo'', ''2''),
      (''photo'', ''3''), (''photo'', ''4''), (''photo'', ''5''), (''photo'', ''6''),
      (''photo'', ''7''), (''photo'', ''8''), (''photo'', ''9''), (''photo'', ''10'')]
  \<and> media (add_all Draft [(''photo'', ''1''), (''photo'', ''2''), (''photo'', ''3''),
      (''photo'', ''4''), (''photo'', ''5''), (''document'', ''d''), (''photo'', ''6''),
      (''photo'', ''7''), (''photo'', ''8''), (''photo'', ''9''), (''photo'', ''10''),
      (''photo'', ''11'')])
   = [(''photo'', ''3''), (''photo'', ''4''), (''photo'', ''5''), (''document'', ''d''),
      (''photo'', ''6''), (''photo'', ''7''), (''photo'', ''8''), (''photo'', ''9''),
      (''photo'', ''10''), (''photo'', ''11'')]"
  by (simp add: Draft_def add_media_to_draft_def is_pv_def slice_last_def)

text \<open>
  Claim C5. Starting from the empty draft, after each call of a sequence of photo and video
  additions (that is, after every prefix \<open>take n es\<close> of the sequence) the media list is
  the last ten entries added so far, in the order they were added, or all of them when
  fewer than ten were added; so it never holds more than ten photo/video entries.
\<close>

theorem album_keeps_last_ten:
  assumes "\<forall>e \<in> set es. is_pv (fst e)"
  shows "media (add_all Draft (take n es)) = drop (length (take n es) - 10) (take n es)
       \<and> length (filter (\<lambda>e. is_pv (fst e)) (media (add_all Draft (take n es)))) \<le> 10"
proof -
  from assms have pv: "\<forall>e \<in> set (take n es). is_pv (fst e)"
    by (meson in_set_takeD)
  have m: "media (add_all Draft (take n es)) = slice_last 10 (take n es)"
    using add_all_pv_media [OF pv, of Draft] by (simp add: Draft_def)
  have "length (filter (\<lambda>e. is_pv (fst e)) (slice_last 10 (take n es)))
          \<le> length (slice_last 10 (take n es))"
    by (rule length_filter_le)
  also have "\<dots> \<le> 10" by (rule slice_last_length)
  finally show ?thesis using m by (simp add: slice_last_def)
qed

theorem album_keeps_last_ten_witness:
  "list_all (\<lambda>e. is_pv (fst e))
      [(''photo'', ''a''), (''video'', ''b''), (''photo'', ''c''), (''photo'', ''d''),
       (''photo'', ''e''), (''video'', ''f''), (''photo'', ''g''), (''photo'', ''h''),
       (''photo'', ''i''), (''photo'', ''j''), (''video'', ''k''), (''photo'', ''l'')]
   \<and> media (add_all Draft (take 12 [(''photo'', ''a''), (''video'', ''b''), (''photo'', ''c''),
       (''photo'', ''d''), (''photo'', ''e''), (''video'', ''f''), (''photo'', ''g''),
       (''photo'', ''h''), (''photo'', ''i''), (''photo'', ''j''), (''video'', ''k''),
       (''photo'', ''l'')]))
     = [(''photo'', ''c''), (''photo'', ''d''), (''photo'', ''e''), (''video'', ''f''),
        (''photo'', ''g''), (''photo'', ''h''), (''photo'', ''i''), (''photo'', ''j''),
        (''video'', ''k''), (''photo'', ''l'')]"
  using album_keeps_last_ten [of "[(''photo'', ''a''), (''video'', ''b''), (''photo'', ''c''),
       (''photo'', ''d''), (''photo'', ''e''), (''video'', ''f''), (''photo'', ''g''),
       (''photo'', ''h''), (''photo'', ''i''), (''photo'', ''j''), (''video'', ''k''),
       (''photo'', ''l'')]" 12]
  by (simp add: is_pv_def)

text \<open>
  Claim C6. Let \<open>kind\<close> be one of document, animation, audio and voice, and let the draft
  satisfy the Draft invariant that no such kind occurs twice (\<open>singles_distinct\<close>; it holds
  for the empty draft, \<open>add_media_to_draft\<close> keeps it, see \<open>singles_distinct_add\<close>, and
  every draft of the store has it in every run, see \<open>reachable_drafts_ok\<close>).
  After \<open>add_media_to_draft d kind fid\<close> the draft has exactly one entry of that kind, the
  one just added; its photo/video entries are the same, in the same order; so are all its
  entries of any other kind; adding the same kind once more leaves only the second entry
  of that kind; the text is unchanged.
\<close>

theorem single_slot_replaced:
  assumes "kind \<in> {''document'', ''animation'', ''audio'', ''voice''}"
      and "singles_distinct (media d)"
  shows "filter (\<lambda>e. fst e = kind) (media (add_media_to_draft d kind fid)) = [(kind, fid)]
       \<and> filter (\<lambda>e. is_pv (fst e)) (media (add_media_to_draft d kind fid))
           = filter (\<lambda>e. is_pv (fst e)) (media d)
       \<and> filter (\<lambda>e. fst e \<noteq> kind) (media (add_media_to_draft d kind fid))
           = filter (\<lambda>e. fst e \<noteq> kind) (media d)
       \<and> filter (\<lambda>e. fst e = kind)
           (media (add_media_to_draft (add_media_to_draft d kind fid) kind fid2))
           = [(kind, fid2)]
       \<and> dtext (add_media_to_draft d kind fid) = dtext d"
proof -
  from assms(1) have npv: "\<not> is_pv kind" by (rule pv_not_single)
  have others: "filter (\<lambda>e. fst e \<noteq> kind) (media (add_media_to_draft d kind fid))
           = filter (\<lambda>e. fst e \<noteq> kind) (media d)"
    by (simp add: add_single_others [OF npv assms(2)])
  have tx: "dtext (add_media_to_draft d kind fid) = dtext d"
    by (simp add: add_media_to_draft_def)
  show ?thesis
    using add_single_kind [OF npv] add_single_pv [OF npv] others tx by simp
qed

theorem single_slot_replaced_witness:
  "''document'' \<in> {''document'', ''animation'', ''audio'', ''voice''}
   \<and> singles_distinct
        [(''photo'', ''p1''), (''audio'', ''a1''), (''document'', ''d1''), (''video'', ''v1'')]
   \<and> filter (\<lambda>e. fst e = ''document'')
        (media (add_media_to_draft
           \<lparr>dtext = ''hi'', media = [(''photo'', ''p1''), (''audio'', ''a1''),
                                     (''document'', ''d1''), (''video'', ''v1'')]\<rparr>
           ''document'' ''d2''))
      = [(''document'', ''d2'')]
   \<and> filter (\<lambda>e. fst e \<noteq> ''document'')
        (media (add_media_to_draft
           \<lparr>dtext = ''hi'', media = [(''photo'', ''p1''), (''audio'', ''a1''),
                                     (''document'', ''d1''), (''video'', ''v1'')]\<rparr>
           ''document'' ''d2''))
      = [(''photo'', ''p1''), (''audio'', ''a1''), (''video'', ''v1'')]"
  using single_slot_replaced [of "''document''"
      "\<lparr>dtext = ''hi'', media = [(''photo'', ''p1''), (''audio'', ''a1''),
                                 (''document'', ''d1''), (''video'', ''v1'')]\<rparr>"
      "''d2''" "''d3''"]
  by (simp add: singles_distinct_def is_pv_def)


section \<open>Properties of the timer parser\<close>

lemma digit_not_space: "is_digit c \<Longrightarrow> \<not> is_space c"
  by (auto simp: is_digit_def is_space_def)

lemma colon_not_digit: "\<not> is_digit CHR '':''"
  by (simp add: is_digit_def)

lemma dropWhile_spaces:
  "list_all is_space ws \<Longrightarrow> dropWhile is_space (ws @ r) = dropWhile is_space r"
  by (simp add: list_all_iff dropWhile_append2)

lemma TIME_HHMM_form:
  assumes ws1: "list_all is_space ws1" and ws2: "list_all is_space ws2"
      and h: "list_all is_digit h" "length h = 1 \<or> length h = 2"
      and m: "list_all is_digit m" "length m = 2"
  shows "TIME_HHMM (ws1 @ h @ '':'' @ m @ ws2) = Some (h, m)"
proof -
  from h obtain c h' where hc: "h = c # h'" by (cases h) auto
  with h have "\<not> is_space c" by (simp add: digit_not_space)
  then have r: "dropWhile is_space (ws1 @ h @ '':'' @ m @ ws2) = h @ '':'' @ m @ ws2"
    using ws1 by (simp add: dropWhile_spaces hc)
  have tk: "takeWhile is_digit (h @ '':'' @ m @ ws2) = h"
    using h(1) by (simp add: list_all_iff takeWhile_append2 colon_not_digit)
  have dr: "dropWhile is_digit (h @ '':'' @ m @ ws2) = '':'' @ m @ ws2"
    using h(1) by (simp add: list_all_iff dropWhile_append2 colon_not_digit)
  show ?thesis
    unfolding TIME_HHMM_def r Let_def tk dr using h(2) m ws2 by simp
qed

lemma py_int_two_digits:
  "length g \<le> 2 \<Longrightarrow> \<exists>v. py_int g = Inr v"
  by (simp add: py_int_def)

lemma next_day_after:
  assumes "valid_datetime t" and "next_day t = Inr t2"
      and "year n = year t" "month n = month t" "day n = day t"
  shows "\<not> dt_le t2 n"
  using assms
  by (auto simp: next_day_def dt_le_def dt_fields_def valid_datetime_def split: if_splits)


lemma digits_value_nonneg:
  "list_all is_digit g \<Longrightarrow> 0 \<le> a \<Longrightarrow> 0 \<le> foldl (\<lambda>a c. 10 * a + digit_value c) a g"
proof (induction g arbitrary: a)
  case Nil
  then show ?case by simp
next
  case (Cons c g)
  from Cons.prems(1) have "0 \<le> digit_value c"
    by (auto simp: is_digit_def digit_value_def)
  with Cons show ?case by simp
qed

lemma py_int_nonneg: "list_all is_digit g \<Longrightarrow> py_int g = Inr v \<Longrightarrow> 0 \<le> v"
  using digits_value_nonneg [of g 0] by (auto simp: py_int_def split: if_splits)

lemma clock_secs:
  fixes hh mm :: int
  assumes "0 \<le> hh" "hh \<le> 23" "0 \<le> mm" "mm \<le> 59"
  shows "(hh * 3600 + mm * 60) div 86400 = 0"
    and "(hh * 3600 + mm * 60) mod 86400 = hh * 3600 + mm * 60"
    and "(hh * 3600 + mm * 60) div 3600 = hh"
    and "(hh * 3600 + mm * 60) mod 3600 div 60 = mm"
    and "(hh * 3600 + mm * 60) mod 60 = 0"
proof -
  have b: "0 \<le> hh * 3600 + mm * 60" "hh * 3600 + mm * 60 < 86400" using assms by auto
  then show "(hh * 3600 + mm * 60) div 86400 = 0" "(hh * 3600 + mm * 60) mod 86400 = hh * 3600 + mm * 60"
    by simp_all
  have m60: "0 \<le> mm * 60" "mm * 60 < 3600" using assms by auto
  have e: "hh * 3600 + mm * 60 = mm * 60 + hh * 3600" by simp
  show "(hh * 3600 + mm * 60) div 3600 = hh"
    unfolding e using m60 by (simp add: div_pos_pos_trivial)
  have "(hh * 3600 + mm * 60) mod 3600 = mm * 60"
    unfolding e using m60 by (simp add: mod_pos_pos_trivial)
  then show "(hh * 3600 + mm * 60) mod 3600 div 60 = mm" by simp
  have "hh * 3600 + mm * 60 = (hh * 60 + mm) * 60" by simp
  then show "(hh * 3600 + mm * 60) mod 60 = 0" by simp
qed

lemma roll_forward:
  assumes "valid_datetime t" "second t = 0" and "next_day t = Inr t2"
  shows "datetime_add t (1, 0) = Inr t2"
proof -
  from assms(1) have r: "0 \<le> hour t" "hour t \<le> 23" "0 \<le> minute t" "minute t \<le> 59"
    by (simp_all add: valid_datetime_def)
  have t2: "hour t2 = hour t" "minute t2 = minute t" "second t2 = 0"
    using assms(2,3) by (auto simp: next_day_def split: if_splits)
  show ?thesis
    using assms(2,3) t2 clock_secs [OF r]
    by (simp add: datetime_add_def Let_def)
qed

lemma next_day_defined:
  assumes "valid_datetime t" and "(year t, month t, day t) \<noteq> (9999, 12, 31)"
  shows "\<exists>t2. next_day t = Inr t2"
proof (cases "day t < days_in_month (year t) (month t) \<or> month t < 12 \<or> year t < 9999")
  case True
  then show ?thesis by (auto simp: next_day_def)
next
  case False
  with assms(1) have "month t = 12" "year t = 9999" "day t = days_in_month 9999 12"
    by (auto simp: valid_datetime_def)
  with assms(2) show ?thesis by (simp add: days_in_month_def)
qed

lemma py_int_short: "length g \<le> 4300 \<Longrightarrow> \<exists>v. py_int g = Inr v"
  by (simp add: py_int_def)

lemma TIME_HHMM_groups:
  assumes "TIME_HHMM s = Some (g1, g2)"
  shows "length g1 \<le> 2 \<and> length g2 \<le> 2"
  using assms by (auto simp: TIME_HHMM_def Let_def split: if_splits list.splits)

lemma TIME_ABS_groups:
  assumes "TIME_ABS s = Some (gy, gmo, gd, ghh, gmm)"
  shows "length gy \<le> 4 \<and> length gmo \<le> 2 \<and> length gd \<le> 2 \<and> length ghh \<le> 2 \<and> length gmm \<le> 2"
  using assms TIME_HHMM_groups
  by (auto simp: TIME_ABS_def Let_def split: if_splits option.splits)

lemma new_datetime_error: "new_datetime y mo d hh mm = Inl e \<Longrightarrow> e = ValueError"
  by (simp add: new_datetime_def Let_def split: if_splits)

lemma parse_when_abs_returns:
  assumes "TIME_HHMM s = None" and "TIME_ABS s = Some (gy, gmo, gd, ghh, gmm)"
  shows "\<exists>y mo d hh mm.
           py_int gy = Inr y \<and> py_int gmo = Inr mo \<and> py_int gd = Inr d \<and>
           py_int ghh = Inr hh \<and> py_int gmm = Inr mm \<and>
           parse_when s now
             = Inr (case new_datetime y mo d hh mm of Inl e \<Rightarrow> None | Inr dt \<Rightarrow> Some dt)"
proof -
  from TIME_ABS_groups [OF assms(2)] obtain y mo d hh mm where
    v: "py_int gy = Inr y" "py_int gmo = Inr mo" "py_int gd = Inr d"
       "py_int ghh = Inr hh" "py_int gmm = Inr mm"
    by (auto simp: py_int_def)
  have "parse_when s now
      = Inr (case new_datetime y mo d hh mm of Inl e \<Rightarrow> None | Inr dt \<Rightarrow> Some dt)"
    using new_datetime_error [of y mo d hh mm]
    by (auto simp: parse_when_def assms v and_then_def split: sum.splits py_error.splits)
  with v show ?thesis by blast
qed

lemma parse_when_invalid_calendar:
  "parse_when ''2025-02-30 10:00'' now = Inr None"
  "parse_when ''2025-13-01 10:00'' now = Inr None"
  by (simp_all add: parse_when_def TIME_HHMM_def TIME_ABS_def fixed_digits_def is_space_def
      is_digit_def py_int_def digit_value_def and_then_def new_datetime_def valid_datetime_def
      days_in_month_def is_leap_def)

section \<open>Well-formed states and what every step keeps\<close>

lemma wf_init: "wf_state init"
  by (simp add: wf_state_def init_def)

lemma frame_refl: "wf_state s \<Longrightarrow> frame s s"
  by (simp add: frame_def same_job_def)

lemma same_job_trans: "same_job T T' \<Longrightarrow> same_job T' T'' \<Longrightarrow> same_job T T''"
  by (auto simp: same_job_def)

lemma frame_trans:
  assumes "frame s s'" and "frame s' s''"
  shows "frame s s''"
  unfolding frame_def
proof (intro conjI allI impI)
  show "wf_state s''" using assms(2) by (simp add: frame_def)
next
  fix t T assume "tasks s t = Some T"
  with assms(1) obtain T' where 1: "tasks s' t = Some T'" "same_job T T'"
      "read_draft s' (job_draft T) = read_draft s (job_draft T)"
    by (auto simp: frame_def)
  with assms(2) obtain T'' where 2: "tasks s'' t = Some T''" "same_job T' T''"
      "read_draft s'' (job_draft T') = read_draft s' (job_draft T')"
    by (auto simp: frame_def)
  from 1(2) have "job_draft T' = job_draft T" by (simp add: same_job_def)
  with 1 2 show "\<exists>T'. tasks s'' t = Some T' \<and> same_job T T' \<and>
              read_draft s'' (job_draft T) = read_draft s (job_draft T)"
    using same_job_trans by auto
qed

lemma frame_wf: "frame s s' \<Longrightarrow> wf_state s'"
  by (simp add: frame_def)

text \<open>A step that leaves tasks, drafts, the store and the counters alone.\<close>

lemma frame_same_store:
  assumes "wf_state s" and "draft_heap s' = draft_heap s" "list_heap s' = list_heap s"
      "next_ref s' = next_ref s" "DRAFTS s' = DRAFTS s" "tasks s' = tasks s"
      "next_task s' = next_task s"
      "\<forall>u j. SCHEDULES s' u = Some j \<longrightarrow> tasks s (sched_task j) \<noteq> None"
  shows "frame s s'"
  using assms unfolding frame_def wf_state_def read_draft_def same_job_def by auto

lemma frame_called: "wf_state s \<Longrightarrow> frame s (called s c ok)"
  by (rule frame_same_store) (auto simp: called_def wf_state_def)

lemma frame_pop: "wf_state s \<Longrightarrow> frame s (s\<lparr>SCHEDULES := (SCHEDULES s)(uid := None)\<rparr>)"
  by (rule frame_same_store) (auto simp: wf_state_def)


lemma frame_task_update:
  assumes "wf_state s" and "tasks s t = Some T" and "same_job T T'"
  shows "frame s (s\<lparr>tasks := (tasks s)(t \<mapsto> T')\<rparr>)"
  using assms unfolding frame_def wf_state_def read_draft_def same_job_def
  by (auto simp: same_job_def)

lemma frame_cancel: "wf_state s \<Longrightarrow> frame s (cancel_if_pending s sched)"
  by (auto simp: cancel_if_pending_def task_cancel_def frame_refl same_job_def
      intro!: frame_task_update split: option.splits)

lemma frame_store:
  assumes wf: "wf_state s"
      and same: "tasks s' = tasks s" "next_task s' = next_task s" "SCHEDULES s' = SCHEDULES s"
      and mono: "next_ref s \<le> next_ref s'"
      and objs: "\<And>a. a < next_ref s \<Longrightarrow> \<forall>u. DRAFTS s u \<noteq> Some a \<Longrightarrow>
                   draft_heap s' a = draft_heap s a"
      and lists: "\<And>l. l < next_ref s \<Longrightarrow>
                   \<forall>u a. DRAFTS s u = Some a \<longrightarrow> obj_media (draft_heap s a) \<noteq> l \<Longrightarrow>
                   list_heap s' l = list_heap s l"
      and drafts: "\<And>u a. DRAFTS s' u = Some a \<Longrightarrow>
                   a < next_ref s' \<and> obj_media (draft_heap s' a) < next_ref s' \<and>
                   ((\<exists>v. DRAFTS s v = Some a) \<or> next_ref s \<le> a) \<and>
                   ((\<exists>v b. DRAFTS s v = Some b \<and>
                            obj_media (draft_heap s b) = obj_media (draft_heap s' a))
                    \<or> next_ref s \<le> obj_media (draft_heap s' a))"
  shows "frame s s'"
proof -
  have task: "t < next_task s \<and> job_draft T < next_ref s \<and>
        obj_media (draft_heap s (job_draft T)) < next_ref s \<and>
        (\<forall>u. DRAFTS s u \<noteq> Some (job_draft T)) \<and>
        (\<forall>u a. DRAFTS s u = Some a \<longrightarrow>
           obj_media (draft_heap s a) \<noteq> obj_media (draft_heap s (job_draft T)))"
    if "tasks s t = Some T" for t T
    using wf that unfolding wf_state_def by blast
  have keep_obj: "draft_heap s' (job_draft T) = draft_heap s (job_draft T)"
    if "tasks s t = Some T" for t T
    using task [OF that] objs by blast
  have keep_list: "list_heap s' (obj_media (draft_heap s (job_draft T)))
        = list_heap s (obj_media (draft_heap s (job_draft T)))"
    if "tasks s t = Some T" for t T
    using task [OF that] lists by blast
  have w1: "\<forall>u a. DRAFTS s' u = Some a \<longrightarrow>
              a < next_ref s' \<and> obj_media (draft_heap s' a) < next_ref s'"
    using drafts by blast
  have w2: "\<forall>u j. SCHEDULES s' u = Some j \<longrightarrow> tasks s' (sched_task j) \<noteq> None"
    using wf same unfolding wf_state_def by simp
  have w3: "t < next_task s' \<and> job_draft T < next_ref s' \<and>
        obj_media (draft_heap s' (job_draft T)) < next_ref s' \<and>
        (\<forall>u a. DRAFTS s' u = Some a \<longrightarrow>
           a \<noteq> job_draft T \<and>
           obj_media (draft_heap s' a) \<noteq> obj_media (draft_heap s' (job_draft T)))"
    if t: "tasks s' t = Some T" for t T
  proof -
    from t same have ts: "tasks s t = Some T" by simp
    note tk = task [OF ts] and ko = keep_obj [OF ts]
    have sep: "a \<noteq> job_draft T \<and>
           obj_media (draft_heap s' a) \<noteq> obj_media (draft_heap s' (job_draft T))"
      if "DRAFTS s' u = Some a" for u a
    proof -
      from drafts [OF that] have
        1: "(\<exists>v. DRAFTS s v = Some a) \<or> next_ref s \<le> a" and
        2: "(\<exists>v b. DRAFTS s v = Some b \<and>
                obj_media (draft_heap s b) = obj_media (draft_heap s' a))
            \<or> next_ref s \<le> obj_media (draft_heap s' a)"
        by blast+
      from 1 tk have "a \<noteq> job_draft T" by auto
      moreover from 2 tk have
        "obj_media (draft_heap s' a) \<noteq> obj_media (draft_heap s (job_draft T))"
        by (metis not_le)
      ultimately show ?thesis by (simp add: ko)
    qed
    from tk mono same show ?thesis using sep by (auto simp: ko)
  qed
  have "wf_state s'" unfolding wf_state_def using w1 w2 w3 by blast
  moreover have "\<exists>T'. tasks s' t = Some T' \<and> same_job T T' \<and>
              read_draft s' (job_draft T) = read_draft s (job_draft T)"
    if "tasks s t = Some T" for t T
    using that same keep_obj [OF that] keep_list [OF that]
    by (simp add: same_job_def read_draft_def)
  ultimately show ?thesis unfolding frame_def by blast
qed


lemma wf_live:
  "wf_state s \<Longrightarrow> DRAFTS s u = Some a \<Longrightarrow> a < next_ref s \<and> obj_media (draft_heap s a) < next_ref s"
  unfolding wf_state_def by blast

lemma frame_Draft_new:
  assumes "wf_state s" and "Draft_new s = (s', fresh)"
  shows "frame s (s'\<lparr>DRAFTS := (DRAFTS s')(uid \<mapsto> fresh)\<rparr>)"
proof (rule frame_store [OF assms(1)])
  from assms(2) have s': "s' = s\<lparr>list_heap := (list_heap s)(next_ref s := []),
        draft_heap := (draft_heap s)(Suc (next_ref s) := \<lparr>obj_text = [], obj_media = next_ref s\<rparr>),
        next_ref := Suc (Suc (next_ref s))\<rparr>" and fresh: "fresh = Suc (next_ref s)"
    by (auto simp: Draft_new_def new_list_def new_draft_obj_def)
  let ?s = "s'\<lparr>DRAFTS := (DRAFTS s')(uid \<mapsto> fresh)\<rparr>"
  show "tasks ?s = tasks s" "next_task ?s = next_task s" "SCHEDULES ?s = SCHEDULES s"
    "next_ref s \<le> next_ref ?s"
    by (simp_all add: s')
  show "draft_heap ?s a = draft_heap s a" if "a < next_ref s" for a
    using that by (simp add: s')
  show "list_heap ?s l = list_heap s l" if "l < next_ref s" for l
    using that by (simp add: s')
  show "a < next_ref ?s \<and> obj_media (draft_heap ?s a) < next_ref ?s \<and>
        ((\<exists>v. DRAFTS s v = Some a) \<or> next_ref s \<le> a) \<and>
        ((\<exists>v b. DRAFTS s v = Some b \<and> obj_media (draft_heap s b) = obj_media (draft_heap ?s a))
         \<or> next_ref s \<le> obj_media (draft_heap ?s a))"
    if "DRAFTS ?s u = Some a" for u a
  proof (cases "u = uid")
    case True
    with that show ?thesis by (simp add: s' fresh)
  next
    case False
    with that have d: "DRAFTS s u = Some a" by (simp add: s')
    from wf_live [OF assms(1) d] have "a \<noteq> Suc (next_ref s)" "a < next_ref s"
      "obj_media (draft_heap s a) < next_ref s"
      by auto
    with d show ?thesis by (auto simp: s')
  qed
qed

lemma frame_get_draft:
  assumes "wf_state s"
  shows "frame s (fst (get_draft s uid))"
    and "DRAFTS (fst (get_draft s uid)) uid = Some (snd (get_draft s uid))"
proof -
  show "frame s (fst (get_draft s uid))"
  proof (cases "DRAFTS s uid")
    case None
    obtain s' fresh where n: "Draft_new s = (s', fresh)" by (cases "Draft_new s")
    show ?thesis using frame_Draft_new [OF assms n, of uid] by (simp add: get_draft_def None n)
  next
    case (Some a)
    then show ?thesis using assms by (simp add: get_draft_def frame_refl)
  qed
  show "DRAFTS (fst (get_draft s uid)) uid = Some (snd (get_draft s uid))"
    by (cases "DRAFTS s uid") (auto simp: get_draft_def split: prod.splits)
qed

lemma frame_set_text:
  assumes "wf_state s" and "DRAFTS s u = Some a"
  shows "frame s (set_text_from s carried a)"
proof (cases carried)
  case None
  then show ?thesis using assms(1) by (simp add: set_text_from_def frame_refl)
next
  case (Some t)
  let ?s = "s\<lparr>draft_heap := (draft_heap s)(a := (draft_heap s a)\<lparr>obj_text := t\<rparr>)\<rparr>"
  have "frame s ?s"
  proof (rule frame_store [OF assms(1)])
    show "tasks ?s = tasks s" "next_task ?s = next_task s" "SCHEDULES ?s = SCHEDULES s"
      "next_ref s \<le> next_ref ?s"
      by simp_all
    show "draft_heap ?s b = draft_heap s b" if "\<forall>u. DRAFTS s u \<noteq> Some b" for b
      using that assms(2) by auto
    show "list_heap ?s l = list_heap s l" for l by simp
    show "b < next_ref ?s \<and> obj_media (draft_heap ?s b) < next_ref ?s \<and>
        ((\<exists>v. DRAFTS s v = Some b) \<or> next_ref s \<le> b) \<and>
        ((\<exists>v c. DRAFTS s v = Some c \<and> obj_media (draft_heap s c) = obj_media (draft_heap ?s b))
         \<or> next_ref s \<le> obj_media (draft_heap ?s b))"
      if "DRAFTS ?s v = Some b" for v b
    proof -
      from that have d: "DRAFTS s v = Some b" by simp
      have m: "obj_media (draft_heap ?s b) = obj_media (draft_heap s b)" by simp
      from wf_live [OF assms(1) d] d show ?thesis unfolding m by auto
    qed
  qed
  then show ?thesis by (simp add: set_text_from_def Some)
qed

lemma set_text_DRAFTS [simp]: "DRAFTS (set_text_from s carried a) = DRAFTS s"
  by (simp add: set_text_from_def split: option.splits)

lemma add_media_DRAFTS [simp]: "DRAFTS (add_media_to_draft_at s a k f) = DRAFTS s"
  by (simp add: add_media_to_draft_at_def new_list_def Let_def)

lemma frame_add_media:
  assumes "wf_state s" and "DRAFTS s u = Some a"
  shows "frame s (add_media_to_draft_at s a k f)"
proof (rule frame_store [OF assms(1)])
  let ?s = "add_media_to_draft_at s a k f"
  let ?l = "obj_media (draft_heap s a)"
  show "tasks ?s = tasks s" "next_task ?s = next_task s" "SCHEDULES ?s = SCHEDULES s"
    "next_ref s \<le> next_ref ?s"
    by (simp_all add: add_media_to_draft_at_def new_list_def Let_def)
  show "draft_heap ?s b = draft_heap s b" if "\<forall>u. DRAFTS s u \<noteq> Some b" for b
    using that assms(2) by (auto simp: add_media_to_draft_at_def new_list_def Let_def)
  show "list_heap ?s l = list_heap s l"
    if "l < next_ref s" "\<forall>u a. DRAFTS s u = Some a \<longrightarrow> obj_media (draft_heap s a) \<noteq> l" for l
    using that assms(2) by (auto simp: add_media_to_draft_at_def new_list_def Let_def)
  show "b < next_ref ?s \<and> obj_media (draft_heap ?s b) < next_ref ?s \<and>
        ((\<exists>v. DRAFTS s v = Some b) \<or> next_ref s \<le> b) \<and>
        ((\<exists>v c. DRAFTS s v = Some c \<and> obj_media (draft_heap s c) = obj_media (draft_heap ?s b))
         \<or> next_ref s \<le> obj_media (draft_heap ?s b))"
    if "DRAFTS ?s v = Some b" for v b
  proof -
    from that have d: "DRAFTS s v = Some b" by simp
    from wf_live [OF assms(1) d] d show ?thesis
      by (auto simp: add_media_to_draft_at_def new_list_def Let_def)
  qed
qed


lemma copy_reads: "read_draft (fst (copy s a)) (snd (copy s a)) = read_draft s a"
  by (simp add: copy_def new_list_def new_draft_obj_def read_draft_def)

lemma copy_keeps [simp]:
  "calls (fst (copy s a)) = calls s" "tasks (fst (copy s a)) = tasks s"
  "SCHEDULES (fst (copy s a)) = SCHEDULES s" "DRAFTS (fst (copy s a)) = DRAFTS s"
  "next_task (fst (copy s a)) = next_task s"
  by (simp_all add: copy_def new_list_def new_draft_obj_def)

lemma frame_copy:
  assumes "wf_state s"
  shows "frame s (fst (copy s a))" and "detached (fst (copy s a)) (snd (copy s a))"
proof -
  let ?s = "fst (copy s a)"
  have c: "?s = s\<lparr>list_heap := (list_heap s)(next_ref s := list_heap s (obj_media (draft_heap s a))),
        draft_heap := (draft_heap s)(Suc (next_ref s) :=
           \<lparr>obj_text = obj_text (draft_heap s a), obj_media = next_ref s\<rparr>),
        next_ref := Suc (Suc (next_ref s))\<rparr>" and d: "snd (copy s a) = Suc (next_ref s)"
    by (simp_all add: copy_def new_list_def new_draft_obj_def)
  have live: "b < next_ref s \<and> obj_media (draft_heap s b) < next_ref s" if "DRAFTS s v = Some b" for v b
    using wf_live [OF assms that] .
  show "frame s ?s"
  proof (rule frame_store [OF assms])
    show "tasks ?s = tasks s" "next_task ?s = next_task s" "SCHEDULES ?s = SCHEDULES s"
      "next_ref s \<le> next_ref ?s"
      by (simp_all add: c)
    show "draft_heap ?s b = draft_heap s b" if "b < next_ref s" for b
      using that by (simp add: c)
    show "list_heap ?s l = list_heap s l" if "l < next_ref s" for l
      using that by (simp add: c)
    show "b < next_ref ?s \<and> obj_media (draft_heap ?s b) < next_ref ?s \<and>
        ((\<exists>v. DRAFTS s v = Some b) \<or> next_ref s \<le> b) \<and>
        ((\<exists>v c. DRAFTS s v = Some c \<and> obj_media (draft_heap s c) = obj_media (draft_heap ?s b))
         \<or> next_ref s \<le> obj_media (draft_heap ?s b))"
      if "DRAFTS ?s v = Some b" for v b
    proof -
      from that have dd: "DRAFTS s v = Some b" by (simp add: c)
      from live [OF dd] dd show ?thesis by (auto simp: c)
    qed
  qed
  show "detached ?s (snd (copy s a))"
    unfolding detached_def d
  proof (intro conjI allI impI)
    fix v b assume "DRAFTS ?s v = Some b"
    then have dd: "DRAFTS s v = Some b" by (simp add: c)
    from live [OF dd] show "b \<noteq> Suc (next_ref s)"
      "obj_media (draft_heap ?s b) \<noteq> obj_media (draft_heap ?s (Suc (next_ref s)))"
      by (auto simp: c)
  qed (simp_all add: c)
qed

lemma detached_cancel [simp]: "detached (cancel_if_pending s sched) d = detached s d"
  by (simp add: detached_def cancel_if_pending_def task_cancel_def split: option.splits)

lemma frame_register:
  assumes wf: "wf_state s" and det: "detached s d"
  shows "frame s (fst (create_task s uid w d)
           \<lparr>SCHEDULES := (SCHEDULES (fst (create_task s uid w d)))
              (uid \<mapsto> \<lparr>sched_when = w, sched_task = snd (create_task s uid w d)\<rparr>)\<rparr>)"
    (is "frame s ?s")
proof -
  let ?J = "\<lparr>job_uid = uid, job_when = w, job_draft = d, status = Pending\<rparr>"
  have s': "?s = s\<lparr>tasks := (tasks s)(next_task s \<mapsto> ?J), next_task := Suc (next_task s),
       SCHEDULES := (SCHEDULES s)(uid \<mapsto> \<lparr>sched_when = w, sched_task = next_task s\<rparr>)\<rparr>"
    by (simp add: create_task_def)
  have old: "t < next_task s \<and> job_draft T < next_ref s \<and>
        obj_media (draft_heap s (job_draft T)) < next_ref s \<and>
        (\<forall>u a. DRAFTS s u = Some a \<longrightarrow>
           a \<noteq> job_draft T \<and>
           obj_media (draft_heap s a) \<noteq> obj_media (draft_heap s (job_draft T)))"
    if "tasks s t = Some T" for t T
    using wf that unfolding wf_state_def by blast
  have w1: "\<forall>u a. DRAFTS ?s u = Some a \<longrightarrow> a < next_ref ?s \<and> obj_media (draft_heap ?s a) < next_ref ?s"
    using wf unfolding wf_state_def s' by simp
  have w2: "tasks ?s (sched_task j) \<noteq> None" if "SCHEDULES ?s u = Some j" for u j
  proof (cases "u = uid")
    case True
    with that show ?thesis by (auto simp: s')
  next
    case False
    with that have "SCHEDULES s u = Some j" by (simp add: s')
    with wf have "tasks s (sched_task j) \<noteq> None" unfolding wf_state_def by blast
    then show ?thesis by (simp add: s')
  qed
  have w3: "t < next_task ?s \<and> job_draft T < next_ref ?s \<and>
        obj_media (draft_heap ?s (job_draft T)) < next_ref ?s \<and>
        (\<forall>u a. DRAFTS ?s u = Some a \<longrightarrow>
           a \<noteq> job_draft T \<and>
           obj_media (draft_heap ?s a) \<noteq> obj_media (draft_heap ?s (job_draft T)))"
    if t: "tasks ?s t = Some T" for t T
  proof (cases "t = next_task s")
    case True
    with t have "T = ?J" by (simp add: s')
    then show ?thesis using det True unfolding detached_def by (simp add: s')
  next
    case False
    with t have "tasks s t = Some T" by (simp add: s')
    from old [OF this] show ?thesis by (simp add: s')
  qed
  have "wf_state ?s" unfolding wf_state_def using w1 w2 w3 by blast
  moreover have "\<exists>T'. tasks ?s t = Some T' \<and> same_job T T' \<and>
              read_draft ?s (job_draft T) = read_draft s (job_draft T)"
    if "tasks s t = Some T" for t T
  proof -
    from old [OF that] have "t \<noteq> next_task s" by auto
    with that show ?thesis by (simp add: s' same_job_def read_draft_def)
  qed
  ultimately show ?thesis unfolding frame_def by blast
qed

lemma frame_job: "wf_state s \<Longrightarrow> frame s (job s t io)"
proof -
  assume wf: "wf_state s"
  show ?thesis
  proof (cases "tasks s t")
    case None
    then show ?thesis using wf by (simp add: job_def frame_refl)
  next
    case (Some T)
    let ?s0 = "s\<lparr>tasks := (tasks s)(t \<mapsto> T\<lparr>status := Finished\<rparr>)\<rparr>"
    have f0: "frame s ?s0"
      by (rule frame_task_update [OF wf Some]) (simp add: same_job_def)
    then have w0: "wf_state ?s0" by (rule frame_wf)
    have step: "frame s (called s' c ok)" if "frame s s'" for s' c ok
      using that frame_called [OF frame_wf [OF that]] by (rule frame_trans)
    have pop: "frame s (s'\<lparr>SCHEDULES := (SCHEDULES s')(u := None)\<rparr>)" if "frame s s'" for s' u
      using that frame_pop [OF frame_wf [OF that]] by (rule frame_trans)
    show ?thesis
    proof (cases "status T")
      case Pending
      then show ?thesis
        using f0 by (auto simp: job_def Some Let_def intro!: step pop)
    next
      case CancelRequested
      then show ?thesis using f0 by (simp add: job_def Some)
    next
      case Finished
      then show ?thesis using wf by (simp add: job_def Some frame_refl)
    qed
  qed
qed


lemma frame_on_text: "wf_state s \<Longrightarrow> frame s (on_text s uid carried)"
proof -
  assume wf: "wf_state s"
  obtain s1 d where g: "get_draft s uid = (s1, d)" by (cases "get_draft s uid")
  from frame_get_draft [OF wf, of uid] have f1: "frame s s1" and d: "DRAFTS s1 uid = Some d"
    by (simp_all add: g)
  from frame_set_text [OF frame_wf [OF f1] d] have "frame s1 (set_text_from s1 carried d)" .
  with f1 have "frame s (set_text_from s1 carried d)" by (rule frame_trans)
  then show ?thesis using wf by (simp add: on_text_def g frame_refl)
qed

lemma frame_on_media: "wf_state s \<Longrightarrow> frame s (on_media kind s uid file_id carried)"
proof -
  assume wf: "wf_state s"
  obtain s1 d where g: "get_draft s uid = (s1, d)" by (cases "get_draft s uid")
  from frame_get_draft [OF wf, of uid] have f1: "frame s s1" and d: "DRAFTS s1 uid = Some d"
    by (simp_all add: g)
  let ?s2 = "add_media_to_draft_at s1 d kind file_id"
  from frame_add_media [OF frame_wf [OF f1] d] have f2: "frame s1 ?s2" .
  have "DRAFTS ?s2 uid = Some d" using d by simp
  from frame_set_text [OF frame_wf [OF f2] this] have "frame ?s2 (set_text_from ?s2 carried d)" .
  with f1 f2 have "frame s (set_text_from ?s2 carried d)" by (blast intro: frame_trans)
  then show ?thesis using wf by (simp add: on_media_def g frame_refl)
qed

lemma frame_cmd_cancel_timer: "wf_state s \<Longrightarrow> frame s (cmd_cancel_timer s uid)"
proof -
  assume wf: "wf_state s"
  let ?s1 = "s\<lparr>SCHEDULES := (SCHEDULES s)(uid := None)\<rparr>"
  have f1: "frame s ?s1" using wf by (rule frame_pop)
  have "frame ?s1 (cancel_if_pending ?s1 (SCHEDULES s uid))"
    using frame_wf [OF f1] by (rule frame_cancel)
  with f1 have "frame s (cancel_if_pending ?s1 (SCHEDULES s uid))" by (rule frame_trans)
  then show ?thesis using wf by (simp add: cmd_cancel_timer_def frame_refl)
qed

lemma frame_cmd_timer: "wf_state s \<Longrightarrow> frame s (cmd_timer s uid args now)"
proof -
  assume wf: "wf_state s"
  obtain s1 a where g: "get_draft s uid = (s1, a)" by (cases "get_draft s uid")
  obtain s2 d where c: "copy s1 a = (s2, d)" by (cases "copy s1 a")
  from frame_get_draft [OF wf, of uid] have f1: "frame s s1" by (simp add: g)
  from frame_copy [OF frame_wf [OF f1], of a] have f2: "frame s1 s2" and det: "detached s2 d"
    by (simp_all add: c)
  from f1 f2 have f12: "frame s s2" by (rule frame_trans)
  let ?s3 = "cancel_if_pending s2 (SCHEDULES s2 uid)"
  have f3: "frame s2 ?s3" using frame_wf [OF f2] by (rule frame_cancel)
  have det3: "detached ?s3 d" using det by simp
  have reg: "frame ?s3 (fst (create_task ?s3 uid w d)
           \<lparr>SCHEDULES := (SCHEDULES (fst (create_task ?s3 uid w d)))
              (uid \<mapsto> \<lparr>sched_when = w, sched_task = snd (create_task ?s3 uid w d)\<rparr>)\<rparr>)" for w
    using frame_wf [OF f3] det3 by (rule frame_register)
  have all: "frame s (fst (create_task ?s3 uid w d)
           \<lparr>SCHEDULES := (SCHEDULES (fst (create_task ?s3 uid w d)))
              (uid \<mapsto> \<lparr>sched_when = w, sched_task = snd (create_task ?s3 uid w d)\<rparr>)\<rparr>)" for w
    using f12 f3 reg [of w] by (blast intro: frame_trans)
  show ?thesis
    using wf f12 all
    by (auto simp: cmd_timer_def g c Let_def frame_refl case_prod_unfold split: sum.splits option.splits)
qed

lemma frame_reset_and_cancel:
  assumes "wf_state s"
  shows "frame s (case Draft_new s of (s4, fresh) \<Rightarrow>
            let s5 = s4\<lparr>DRAFTS := (DRAFTS s4)(uid \<mapsto> fresh)\<rparr>
            in cancel_if_pending (s5\<lparr>SCHEDULES := (SCHEDULES s5)(uid := None)\<rparr>) (SCHEDULES s5 uid))"
proof -
  obtain s4 fresh where n: "Draft_new s = (s4, fresh)" by (cases "Draft_new s")
  let ?s5 = "s4\<lparr>DRAFTS := (DRAFTS s4)(uid \<mapsto> fresh)\<rparr>"
  let ?s6 = "?s5\<lparr>SCHEDULES := (SCHEDULES ?s5)(uid := None)\<rparr>"
  have f5: "frame s ?s5" using assms n by (rule frame_Draft_new)
  have f6: "frame ?s5 ?s6" using frame_wf [OF f5] by (rule frame_pop)
  have f7: "frame ?s6 (cancel_if_pending ?s6 (SCHEDULES ?s5 uid))"
    using frame_wf [OF f6] by (rule frame_cancel)
  from f5 f6 f7 have "frame s (cancel_if_pending ?s6 (SCHEDULES ?s5 uid))"
    by (blast intro: frame_trans)
  then show ?thesis by (simp add: n Let_def)
qed

lemma frame_if:
  "(c \<Longrightarrow> frame s a) \<Longrightarrow> (\<not> c \<Longrightarrow> frame s b) \<Longrightarrow> frame s (if c then a else b)"
  by simp

lemma frame_then_called: "frame s s' \<Longrightarrow> frame s (called s' c ok)"
  using frame_called [OF frame_wf] by (blast intro: frame_trans)

lemma frame_on_cb: "wf_state s \<Longrightarrow> frame s (on_cb s uid data io)"
proof -
  assume wf: "wf_state s"
  obtain s1 d where g: "get_draft s uid = (s1, d)" by (cases "get_draft s uid")
  from frame_get_draft [OF wf, of uid] have f1: "frame s s1" by (simp add: g)
  have pub: "frame s (case Draft_new s3 of (s4, fresh) \<Rightarrow>
            let s5 = s4\<lparr>DRAFTS := (DRAFTS s4)(uid \<mapsto> fresh)\<rparr>
            in cancel_if_pending (s5\<lparr>SCHEDULES := (SCHEDULES s5)(uid := None)\<rparr>) (SCHEDULES s5 uid))"
    if "frame s s3" for s3
    using that frame_reset_and_cancel [OF frame_wf [OF that], of uid] by (rule frame_trans)
  have clr: "frame s (case Draft_new s1 of (s2, fresh) \<Rightarrow>
             let s3 = called (s2\<lparr>DRAFTS := (DRAFTS s2)(uid \<mapsto> fresh)\<rparr>)
                        (notify uid Draft_cleared) (edit_ok io)
             in if \<not> edit_ok io then s3
                else cancel_if_pending (s3\<lparr>SCHEDULES := (SCHEDULES s3)(uid := None)\<rparr>)
                       (SCHEDULES s3 uid))"
  proof -
    obtain s2 fresh where n: "Draft_new s1 = (s2, fresh)" by (cases "Draft_new s1")
    let ?s2 = "s2\<lparr>DRAFTS := (DRAFTS s2)(uid \<mapsto> fresh)\<rparr>"
    let ?s3 = "called ?s2 (notify uid Draft_cleared) (edit_ok io)"
    let ?s4 = "?s3\<lparr>SCHEDULES := (SCHEDULES ?s3)(uid := None)\<rparr>"
    have a: "frame s1 ?s2" using frame_wf [OF f1] n by (rule frame_Draft_new)
    have b: "frame s ?s3" using f1 a by (blast intro: frame_trans frame_then_called)
    have c: "frame ?s3 ?s4" using frame_wf [OF b] by (rule frame_pop)
    have d: "frame ?s4 (cancel_if_pending ?s4 (SCHEDULES ?s3 uid))"
      using frame_wf [OF c] by (rule frame_cancel)
    from b c d have e: "frame s (cancel_if_pending ?s4 (SCHEDULES ?s3 uid))"
      by (blast intro: frame_trans)
    show ?thesis unfolding n prod.case Let_def using b e by (cases "edit_ok io") simp_all
  qed
  show ?thesis
    unfolding on_cb_def g prod.case Let_def
    by (intro frame_if frame_then_called pub [unfolded Let_def] clr [unfolded Let_def]
          f1 frame_refl [OF wf])
qed

lemma frame_step: "wf_state s \<Longrightarrow> frame s (step s e)"
  by (cases e)
    (simp_all add: frame_on_text frame_on_media frame_cmd_timer frame_cmd_cancel_timer
       frame_on_cb frame_job frame_refl)

lemma frame_run: "wf_state s \<Longrightarrow> frame s (run s es)"
proof (induction es arbitrary: s)
  case Nil
  then show ?case by (simp add: run_def frame_refl)
next
  case (Cons e es)
  have 1: "frame s (step s e)" using Cons.prems by (rule frame_step)
  have "frame (step s e) (run (step s e) es)" using frame_wf [OF 1] by (rule Cons.IH)
  with 1 show ?case by (simp add: run_def frame_trans)
qed

lemma wf_run: "wf_state (run init es)"
  using frame_run [OF wf_init] by (rule frame_wf)

section \<open>Properties of the payload resolver\<close>

lemma group_items_kind:
  "list_all (\<lambda>e. is_pv (fst e)) pv \<Longrightarrow> map item_kind (group_items t idx pv) = map fst pv"
  by (induction t idx pv rule: group_items.induct) (auto simp: Let_def is_pv_def)

lemma group_items_file: "map item_file (group_items t idx pv) = map snd pv"
  by (induction t idx pv rule: group_items.induct) (auto simp: Let_def)

lemma group_items_rest_caption:
  "0 < idx \<Longrightarrow> map item_caption (group_items t idx pv) = replicate (length pv) None"
  by (induction t idx pv rule: group_items.induct) (auto simp: Let_def)

lemma group_items_rest_parse_mode:
  "0 < idx \<Longrightarrow> map item_parse_mode (group_items t idx pv) = replicate (length pv) None"
  by (induction t idx pv rule: group_items.induct) (auto simp: Let_def truthy_def)

lemma group_items_caption:
  "map item_caption (group_items t 0 (e # pv)) = Some t # replicate (length pv) None"
  by (cases e) (auto simp: Let_def group_items_rest_caption)

lemma group_items_parse_mode:
  "map item_parse_mode (group_items t 0 (e # pv))
     = (if t = [] then None else Some HTML) # replicate (length pv) None"
  by (cases e) (auto simp: Let_def truthy_def group_items_rest_parse_mode)

lemma group_items_length: "length (group_items t idx pv) = length pv"
  by (induction t idx pv rule: group_items.induct) (auto simp: Let_def)

lemma publish_album:
  assumes "2 \<le> length (filter (\<lambda>e. is_pv (fst e)) (media d))"
  shows "publish_to_channel d
       = send_media_group TARGET_CHAT (group_items (dtext d) 0 (filter (\<lambda>e. is_pv (fst e)) (media d)))"
proof -
  have eq: "filter (\<lambda>(k, fid). is_pv k) (media d) = filter (\<lambda>e. is_pv (fst e)) (media d)"
    by (rule filter_cong) auto
  obtain e1 e2 rest where pv: "filter (\<lambda>e. is_pv (fst e)) (media d) = e1 # e2 # rest"
    using assms by (cases "filter (\<lambda>e. is_pv (fst e)) (media d)" rule: list.exhaust)
      (auto simp: Suc_le_eq length_Suc_conv neq_Nil_conv)
  obtain g gs where g: "group_items (dtext d) 0 (e1 # e2 # rest) = g # gs"
    by (cases e1) (auto simp: Let_def)
  show ?thesis
    by (simp add: publish_to_channel_def draft_to_media_group_def eq pv g del: group_items.simps)
qed

lemma publish_single:
  assumes "length (filter (\<lambda>e. is_pv (fst e)) (media d)) < 2" "media d \<noteq> []"
      and "known_kind (fst (last (media d)))"
  shows "call_chat (publish_to_channel d) = TARGET_CHAT"
    and "call_kind (publish_to_channel d) = Some (fst (last (media d)))"
    and "call_file (publish_to_channel d) = Some (snd (last (media d)))"
    and "call_caption (publish_to_channel d) = text_or_None (dtext d)"
proof -
  have eq: "filter (\<lambda>(k, fid). is_pv k) (media d) = filter (\<lambda>e. is_pv (fst e)) (media d)"
    by (rule filter_cong) auto
  have none: "draft_to_media_group d = None"
    using assms(1) by (simp add: draft_to_media_group_def eq)
  obtain k f where l: "last (media d) = (k, f)" by (cases "last (media d)")
  show "call_chat (publish_to_channel d) = TARGET_CHAT"
    "call_kind (publish_to_channel d) = Some (fst (last (media d)))"
    "call_file (publish_to_channel d) = Some (snd (last (media d)))"
    "call_caption (publish_to_channel d) = text_or_None (dtext d)"
    using assms(2,3) by (auto simp: publish_to_channel_def none l known_kind_def)
qed

lemma publish_text:
  assumes "media d = []"
  shows "publish_to_channel d = send_message TARGET_CHAT (dtext d) HTML"
  using assms by (simp add: publish_to_channel_def draft_to_media_group_def)


lemma published_called_notify [simp]: "published (called s (notify uid n) ok) = published s"
  by (simp add: published_def called_def TARGET_CHAT_def)

lemma get_draft_calls [simp]: "calls (fst (get_draft s uid)) = calls s"
  by (simp add: get_draft_def Draft_new_def new_list_def new_draft_obj_def split: option.splits)

lemma get_draft_tasks [simp]: "tasks (fst (get_draft s uid)) = tasks s"
  by (simp add: get_draft_def Draft_new_def new_list_def new_draft_obj_def split: option.splits)

lemma get_draft_SCHEDULES [simp]: "SCHEDULES (fst (get_draft s uid)) = SCHEDULES s"
  by (simp add: get_draft_def Draft_new_def new_list_def new_draft_obj_def split: option.splits)

lemma on_cb_empty_refuses:
  assumes "is_empty (read_draft (fst (get_draft s uid)) (snd (get_draft s uid)))"
  shows "published (on_cb s uid ''pub'' io) = published s"
proof -
  obtain s1 d where g: "get_draft s uid = (s1, d)" by (cases "get_draft s uid")
  have "calls s1 = calls s" using get_draft_calls [of s uid] by (simp add: g)
  then have "published s1 = published s" by (simp add: published_def)
  then show ?thesis using assms by (simp add: on_cb_def g)
qed

lemma cmd_timer_empty_refuses:
  assumes "is_empty (read_draft (fst (get_draft s uid)) (snd (get_draft s uid)))"
  shows "tasks (cmd_timer s uid args now) = tasks s
       \<and> SCHEDULES (cmd_timer s uid args now) = SCHEDULES s
       \<and> calls (cmd_timer s uid args now) = calls s"
proof -
  obtain s1 d where g: "get_draft s uid = (s1, d)" by (cases "get_draft s uid")
  obtain s2 c where c: "copy s1 d = (s2, c)" by (cases "copy s1 d")
  have e: "is_empty (read_draft s2 c)"
    using assms copy_reads [of s1 d] by (simp add: g c)
  have k1: "tasks s1 = tasks s" "SCHEDULES s1 = SCHEDULES s" "calls s1 = calls s"
    using get_draft_tasks [of s uid] get_draft_SCHEDULES [of s uid] get_draft_calls [of s uid]
    by (simp_all add: g)
  have k2: "tasks s2 = tasks s1" "SCHEDULES s2 = SCHEDULES s1" "calls s2 = calls s1"
    using copy_keeps [of s1 d] by (simp_all add: c)
  show ?thesis
    using e k1 k2 by (simp add: cmd_timer_def g c split: sum.splits option.splits)
qed

lemma live_reads: "live s uid = read_draft (fst (get_draft s uid)) (snd (get_draft s uid))"
  by (simp add: live_def case_prod_unfold)

section \<open>What the scheduler and the buttons do\<close>

lemma call_chat_publish: "call_chat (publish_to_channel d) = TARGET_CHAT"
  by (auto simp: publish_to_channel_def split: option.splits list.splits prod.splits)

lemma published_called:
  "published (called s c ok) = published s @ (if ok \<and> call_chat c = TARGET_CHAT then [c] else [])"
  by (simp add: published_def called_def)

lemma published_calls: "calls s' = calls s \<Longrightarrow> published s' = published s"
  by (simp add: published_def)

lemma cancel_keeps [simp]:
  "DRAFTS (cancel_if_pending s j) = DRAFTS s" "SCHEDULES (cancel_if_pending s j) = SCHEDULES s"
  "draft_heap (cancel_if_pending s j) = draft_heap s" "list_heap (cancel_if_pending s j) = list_heap s"
  "calls (cancel_if_pending s j) = calls s" "next_task (cancel_if_pending s j) = next_task s"
  "next_ref (cancel_if_pending s j) = next_ref s"
  by (simp_all add: cancel_if_pending_def task_cancel_def split: option.splits)

lemma cancel_reads [simp]: "read_draft (cancel_if_pending s j) a = read_draft s a"
  by (simp add: read_draft_def)

lemma cancel_exact:
  assumes "tasks s (sched_task j) = Some T"
  shows "tasks (cancel_if_pending s (Some j)) (sched_task j)
       = Some (if status T = Pending then T\<lparr>status := CancelRequested\<rparr> else T)"
  using assms by (cases "status T") (simp_all add: cancel_if_pending_def task_cancel_def task_done_def)

lemma cancel_not_pending:
  assumes "tasks s (sched_task j) = Some T"
  shows "\<exists>T'. tasks (cancel_if_pending s (Some j)) (sched_task j) = Some T' \<and> status T' \<noteq> Pending"
  using cancel_exact [OF assms] by auto

lemma cancel_other_task:
  "t \<noteq> sched_task j \<Longrightarrow> tasks (cancel_if_pending s (Some j)) t = tasks s t"
  by (simp add: cancel_if_pending_def task_cancel_def split: option.splits)

lemma get_draft_next_task [simp]: "next_task (fst (get_draft s uid)) = next_task s"
  by (simp add: get_draft_def Draft_new_def new_list_def new_draft_obj_def split: option.splits)

lemma live_of: "DRAFTS s uid = Some a \<Longrightarrow> live s uid = read_draft s a"
  by (simp add: live_def get_draft_def)

lemma published_job:
  assumes "tasks s t = Some T"
  shows "published (job s t io)
       = published s @ (if status T = Pending \<and> job_publish_ok io
                        then [publish_to_channel (read_draft s (job_draft T))] else [])"
  using assms
  by (cases "status T")
     (simp_all add: job_def Let_def published_def called_def call_chat_publish read_draft_def
        TARGET_CHAT_def)

lemma never_publishes:
  assumes "wf_state s" and "tasks s t = Some T" and "status T \<noteq> Pending"
  shows "published (job (run s es) t io) = published (run s es)"
proof -
  from frame_run [OF assms(1), of es] assms(2) obtain T' where
    "tasks (run s es) t = Some T'" and "same_job T T'"
    unfolding frame_def by blast
  with assms(3) show ?thesis by (simp add: published_job same_job_def)
qed

lemma payload_kept:
  assumes "wf_state s" and "tasks s t = Some T"
  shows "\<exists>T'. tasks (run s es) t = Some T' \<and> job_draft T' = job_draft T \<and>
           read_draft (run s es) (job_draft T') = read_draft s (job_draft T)"
proof -
  from frame_run [OF assms(1), of es] assms(2) obtain T' where
    "tasks (run s es) t = Some T'" "same_job T T'"
    "read_draft (run s es) (job_draft T) = read_draft s (job_draft T)"
    unfolding frame_def by blast
  then show ?thesis by (auto simp: same_job_def)
qed

lemma cmd_timer_scheduled:
  assumes auth: "authorized uid" and args: "args \<noteq> []"
      and parse: "parse_when (join_args args) now = Inr (Some w)"
      and nonempty: "\<not> is_empty (live s uid)"
  shows "SCHEDULES (cmd_timer s uid args now) uid = Some \<lparr>sched_when = w, sched_task = next_task s\<rparr>"
    and "\<exists>d. tasks (cmd_timer s uid args now) (next_task s)
               = Some \<lparr>job_uid = uid, job_when = w, job_draft = d, status = Pending\<rparr>
             \<and> read_draft (cmd_timer s uid args now) d = live s uid"
    and "calls (cmd_timer s uid args now) = calls s"
    and "wf_state s \<Longrightarrow> SCHEDULES s uid = Some old \<Longrightarrow>
         \<exists>T. tasks (cmd_timer s uid args now) (sched_task old) = Some T \<and> status T \<noteq> Pending"
proof -
  obtain s1 a where g: "get_draft s uid = (s1, a)" by (cases "get_draft s uid")
  obtain s2 d where c: "copy s1 a = (s2, d)" by (cases "copy s1 a")
  have k1: "tasks s1 = tasks s" "SCHEDULES s1 = SCHEDULES s" "calls s1 = calls s"
      "next_task s1 = next_task s"
    using get_draft_tasks [of s uid] get_draft_SCHEDULES [of s uid] get_draft_calls [of s uid]
      get_draft_next_task [of s uid]
    by (simp_all add: g)
  have k2: "tasks s2 = tasks s" "SCHEDULES s2 = SCHEDULES s" "calls s2 = calls s"
      "next_task s2 = next_task s"
    using copy_keeps [of s1 a] k1 by (simp_all add: c)
  have rd: "read_draft s2 d = live s uid"
    using copy_reads [of s1 a] by (simp add: c live_reads g)
  let ?s3 = "cancel_if_pending s2 (SCHEDULES s2 uid)"
  let ?J = "\<lparr>job_uid = uid, job_when = w, job_draft = d, status = Pending\<rparr>"
  have eq: "cmd_timer s uid args now
      = ?s3\<lparr>tasks := (tasks ?s3)(next_task s \<mapsto> ?J), next_task := Suc (next_task s),
            SCHEDULES := (SCHEDULES s)(uid \<mapsto> \<lparr>sched_when = w, sched_task = next_task s\<rparr>)\<rparr>"
    using auth args parse nonempty rd
    by (simp add: cmd_timer_def g c create_task_def k2 Let_def)
  show "SCHEDULES (cmd_timer s uid args now) uid = Some \<lparr>sched_when = w, sched_task = next_task s\<rparr>"
    by (simp add: eq)
  have "read_draft (cmd_timer s uid args now) d = live s uid"
    using rd by (simp add: eq read_draft_def)
  then show "\<exists>d. tasks (cmd_timer s uid args now) (next_task s) = Some \<lparr>job_uid = uid, job_when = w, job_draft = d, status = Pending\<rparr>
             \<and> read_draft (cmd_timer s uid args now) d = live s uid"
    by (auto simp: eq)
  show "calls (cmd_timer s uid args now) = calls s"
    by (simp add: eq k2)
  show "\<exists>T. tasks (cmd_timer s uid args now) (sched_task old) = Some T \<and> status T \<noteq> Pending"
    if wf: "wf_state s" and old: "SCHEDULES s uid = Some old"
  proof -
    from wf old obtain T0 where t0: "tasks s (sched_task old) = Some T0"
      unfolding wf_state_def by blast
    with wf have lt: "sched_task old < next_task s" unfolding wf_state_def by blast
    from t0 have "tasks s2 (sched_task old) = Some T0" by (simp add: k2)
    from cancel_not_pending [OF this] obtain T where
      "tasks ?s3 (sched_task old) = Some T" "status T \<noteq> Pending"
      by (auto simp: k2 old)
    with lt show ?thesis by (auto simp: eq)
  qed
qed


lemma Draft_new_eq:
  "Draft_new s =
     (s\<lparr>list_heap := (list_heap s)(next_ref s := []),
        draft_heap := (draft_heap s)(Suc (next_ref s) := \<lparr>obj_text = [], obj_media = next_ref s\<rparr>),
        next_ref := Suc (Suc (next_ref s))\<rparr>,
      Suc (next_ref s))"
  by (simp add: Draft_new_def new_list_def new_draft_obj_def)

lemma get_draft_live:
  assumes "get_draft s uid = (s1, d)"
  shows "DRAFTS s1 uid = Some d" and "live s uid = read_draft s1 d"
    and "tasks s1 = tasks s" and "SCHEDULES s1 = SCHEDULES s" and "calls s1 = calls s"
proof -
  show "DRAFTS s1 uid = Some d"
    using assms by (auto simp: get_draft_def Draft_new_eq split: option.splits)
  show "live s uid = read_draft s1 d" by (simp add: live_def assms)
  show "tasks s1 = tasks s" "SCHEDULES s1 = SCHEDULES s" "calls s1 = calls s"
    using get_draft_tasks [of s uid] get_draft_SCHEDULES [of s uid] get_draft_calls [of s uid]
    by (simp_all add: assms)
qed

lemma on_cb_pub_ok:
  assumes "authorized uid" "answer_ok io" "publish_ok io" "edit_ok io"
      and "\<not> is_empty (live s uid)"
  shows "live (on_cb s uid ''pub'' io) uid = Draft"
    and "DRAFTS (on_cb s uid ''pub'' io) uid \<noteq> None"
    and "SCHEDULES (on_cb s uid ''pub'' io) uid = None"
    and "published (on_cb s uid ''pub'' io) = published s @ [publish_to_channel (live s uid)]"
    and "SCHEDULES s uid = Some old \<Longrightarrow> tasks s (sched_task old) = Some T \<Longrightarrow>
         tasks (on_cb s uid ''pub'' io) (sched_task old)
           = Some (if status T = Pending then T\<lparr>status := CancelRequested\<rparr> else T)"
proof -
  obtain s1 d where g: "get_draft s uid = (s1, d)" by (cases "get_draft s uid")
  note gl = get_draft_live [OF g]
  let ?s3 = "called (called s1 (publish_to_channel (read_draft s1 d)) True) (notify uid Published) True"
  let ?s5 = "?s3\<lparr>list_heap := (list_heap ?s3)(next_ref ?s3 := []),
        draft_heap := (draft_heap ?s3)(Suc (next_ref ?s3) := \<lparr>obj_text = [], obj_media = next_ref ?s3\<rparr>),
        next_ref := Suc (Suc (next_ref ?s3)),
        DRAFTS := (DRAFTS ?s3)(uid \<mapsto> Suc (next_ref ?s3)),
        SCHEDULES := (SCHEDULES ?s3)(uid := None)\<rparr>"
  have eq: "on_cb s uid ''pub'' io = cancel_if_pending ?s5 (SCHEDULES s uid)"
    using assms gl by (simp add: on_cb_def g Draft_new_eq Let_def called_def)
  have d: "DRAFTS (on_cb s uid ''pub'' io) uid = Some (Suc (next_ref ?s3))"
    by (simp add: eq)
  show "live (on_cb s uid ''pub'' io) uid = Draft"
    by (simp add: live_of [OF d]) (simp add: eq read_draft_def Draft_def)
  show "DRAFTS (on_cb s uid ''pub'' io) uid \<noteq> None" by (simp add: d)
  show "SCHEDULES (on_cb s uid ''pub'' io) uid = None" by (simp add: eq)
  have "calls (on_cb s uid ''pub'' io) = calls ?s3" by (simp add: eq)
  then have "published (on_cb s uid ''pub'' io) = published ?s3" by (rule published_calls)
  also have "\<dots> = published s1 @ [publish_to_channel (read_draft s1 d)]"
    by (simp add: published_called call_chat_publish) (simp add: TARGET_CHAT_def)
  also have "published s1 = published s" using gl(5) by (rule published_calls)
  finally show "published (on_cb s uid ''pub'' io) = published s @ [publish_to_channel (live s uid)]"
    by (simp add: gl)
  show "tasks (on_cb s uid ''pub'' io) (sched_task old)
           = Some (if status T = Pending then T\<lparr>status := CancelRequested\<rparr> else T)"
    if "SCHEDULES s uid = Some old" "tasks s (sched_task old) = Some T"
  proof -
    have "tasks ?s5 (sched_task old) = Some T" using that gl by (simp add: called_def)
    from cancel_exact [OF this] show ?thesis by (simp add: eq that)
  qed
qed

lemma on_cb_clr:
  assumes "authorized uid" "answer_ok io"
  shows "live (on_cb s uid ''clr'' io) uid = Draft"
    and "DRAFTS (on_cb s uid ''clr'' io) uid \<noteq> None"
    and "edit_ok io \<Longrightarrow> SCHEDULES (on_cb s uid ''clr'' io) uid = None"
    and "edit_ok io \<Longrightarrow> SCHEDULES s uid = Some old \<Longrightarrow> tasks s (sched_task old) = Some T \<Longrightarrow>
         tasks (on_cb s uid ''clr'' io) (sched_task old)
           = Some (if status T = Pending then T\<lparr>status := CancelRequested\<rparr> else T)"
proof -
  obtain s1 d where g: "get_draft s uid = (s1, d)" by (cases "get_draft s uid")
  note gl = get_draft_live [OF g]
  let ?s3 = "called (s1\<lparr>list_heap := (list_heap s1)(next_ref s1 := []),
        draft_heap := (draft_heap s1)(Suc (next_ref s1) := \<lparr>obj_text = [], obj_media = next_ref s1\<rparr>),
        next_ref := Suc (Suc (next_ref s1)),
        DRAFTS := (DRAFTS s1)(uid \<mapsto> Suc (next_ref s1))\<rparr>) (notify uid Draft_cleared) (edit_ok io)"
  have eq: "on_cb s uid ''clr'' io
      = (if \<not> edit_ok io then ?s3
         else cancel_if_pending (?s3\<lparr>SCHEDULES := (SCHEDULES ?s3)(uid := None)\<rparr>) (SCHEDULES s uid))"
    using assms gl by (simp add: on_cb_def g Draft_new_eq Let_def called_def)
  have d: "DRAFTS (on_cb s uid ''clr'' io) uid = Some (Suc (next_ref s1))"
    by (simp add: eq called_def)
  show "live (on_cb s uid ''clr'' io) uid = Draft"
    by (simp add: live_of [OF d]) (simp add: eq read_draft_def Draft_def called_def)
  show "DRAFTS (on_cb s uid ''clr'' io) uid \<noteq> None" by (simp add: d)
  show "SCHEDULES (on_cb s uid ''clr'' io) uid = None" if "edit_ok io"
    using that by (simp add: eq)
  show "tasks (on_cb s uid ''clr'' io) (sched_task old)
           = Some (if status T = Pending then T\<lparr>status := CancelRequested\<rparr> else T)"
    if "edit_ok io" "SCHEDULES s uid = Some old" "tasks s (sched_task old) = Some T"
  proof -
    have "tasks (?s3\<lparr>SCHEDULES := (SCHEDULES ?s3)(uid := None)\<rparr>) (sched_task old) = Some T"
      using that gl by (simp add: called_def)
    from cancel_exact [OF this] show ?thesis using that by (simp add: eq)
  qed
qed

lemma on_cb_pub_failed:
  assumes "\<not> publish_ok io"
  shows "live (on_cb s uid ''pub'' io) uid = live s uid"
    and "published (on_cb s uid ''pub'' io) = published s"
proof -
  obtain s1 d where g: "get_draft s uid = (s1, d)" by (cases "get_draft s uid")
  note gl = get_draft_live [OF g]
  have keep: "live s' uid = live s uid \<and> published s' = published s"
    if "DRAFTS s' = DRAFTS s1" "draft_heap s' = draft_heap s1" "list_heap s' = list_heap s1"
       "published s' = published s1" for s'
  proof -
    have "DRAFTS s' uid = Some d" using that gl by simp
    from live_of [OF this] have "live s' uid = read_draft s1 d"
      using that by (simp add: read_draft_def)
    moreover have "published s1 = published s" using gl(5) by (rule published_calls)
    ultimately show ?thesis using that gl by simp
  qed
  have "live (on_cb s uid ''pub'' io) uid = live s uid
      \<and> published (on_cb s uid ''pub'' io) = published s"
  proof (cases "answer_ok io \<and> authorized uid")
    case False
    then show ?thesis by (auto simp: on_cb_def)
  next
    case True
    show ?thesis
    proof (cases "is_empty (read_draft s1 d)")
      case e: True
      have "on_cb s uid ''pub'' io = called s1 (notify uid Nothing_to_publish) (edit_ok io)"
        using True e by (simp add: on_cb_def g)
      then show ?thesis
        using keep [of "called s1 (notify uid Nothing_to_publish) (edit_ok io)"]
        by (simp add: called_def published_def TARGET_CHAT_def)
    next
      case e: False
      let ?r = "called (called s1 (publish_to_channel (read_draft s1 d)) False)
                  (notify uid Publish_error) (error_edit_ok io)"
      have "on_cb s uid ''pub'' io = ?r"
        using True e assms by (simp add: on_cb_def g Let_def)
      then show ?thesis
        using keep [of ?r] by (simp add: called_def published_def TARGET_CHAT_def)
    qed
  qed
  then show "live (on_cb s uid ''pub'' io) uid = live s uid"
    "published (on_cb s uid ''pub'' io) = published s" by simp_all
qed

subsection \<open>The drafts of the store in every run\<close>

lemma add_media_at_reads:
  "read_draft (add_media_to_draft_at s a k f) a = add_media_to_draft (read_draft s a) k f"
  by (simp add: add_media_to_draft_at_def add_media_to_draft_def read_draft_def new_list_def Let_def)


lemma live_none: "DRAFTS s uid = None \<Longrightarrow> live s uid = Draft"
  by (simp add: live_def get_draft_def Draft_new_eq read_draft_def Draft_def)

lemma live_cong:
  assumes "DRAFTS s' uid = DRAFTS s uid" "draft_heap s' = draft_heap s" "list_heap s' = list_heap s"
  shows "live s' uid = live s uid"
proof (cases "DRAFTS s uid")
  case None
  then show ?thesis using assms by (simp add: live_none)
next
  case (Some a)
  then show ?thesis using assms by (simp add: live_of read_draft_def)
qed

lemma live_get_draft:
  assumes "get_draft s uid = (s1, d)"
  shows "DRAFTS s1 uid = Some d" and "read_draft s1 d = live s uid"
    and "DRAFTS s1 = (DRAFTS s)(uid \<mapsto> d)"
  using assms
  by (auto simp: live_def get_draft_def Draft_new_eq split: option.splits)

lemma live_on_text:
  assumes "authorized uid"
  shows "live (on_text s uid carried) uid
       = (case carried of None \<Rightarrow> live s uid | Some t \<Rightarrow> (live s uid)\<lparr>dtext := t\<rparr>)"
    and "DRAFTS (on_text s uid carried) = (DRAFTS (on_text s uid carried))(uid := DRAFTS (on_text s uid carried) uid)"
    and "dom (DRAFTS (on_text s uid carried)) = insert uid (dom (DRAFTS s))"
proof -
  obtain s1 d where g: "get_draft s uid = (s1, d)" by (cases "get_draft s uid")
  note gl = live_get_draft [OF g]
  have d: "DRAFTS (on_text s uid carried) = DRAFTS s1"
    using assms by (simp add: on_text_def g)
  have "read_draft (set_text_from s1 carried d) d
       = (case carried of None \<Rightarrow> read_draft s1 d | Some t \<Rightarrow> (read_draft s1 d)\<lparr>dtext := t\<rparr>)"
    by (simp add: set_text_from_def read_draft_def split: option.splits)
  then show "live (on_text s uid carried) uid
       = (case carried of None \<Rightarrow> live s uid | Some t \<Rightarrow> (live s uid)\<lparr>dtext := t\<rparr>)"
    using assms gl by (simp add: live_of [of _ uid d] d on_text_def g split: option.splits)
  show "DRAFTS (on_text s uid carried) = (DRAFTS (on_text s uid carried))(uid := DRAFTS (on_text s uid carried) uid)"
    by simp
  show "dom (DRAFTS (on_text s uid carried)) = insert uid (dom (DRAFTS s))"
    by (simp add: d gl(3))
qed

lemma live_on_media:
  assumes "authorized uid"
  shows "live (on_media k s uid f carried) uid
       = (case carried of None \<Rightarrow> add_media_to_draft (live s uid) k f
                        | Some t \<Rightarrow> (add_media_to_draft (live s uid) k f)\<lparr>dtext := t\<rparr>)"
    and "dom (DRAFTS (on_media k s uid f carried)) = insert uid (dom (DRAFTS s))"
proof -
  obtain s1 d where g: "get_draft s uid = (s1, d)" by (cases "get_draft s uid")
  note gl = live_get_draft [OF g]
  let ?s2 = "add_media_to_draft_at s1 d k f"
  have d: "DRAFTS (on_media k s uid f carried) = DRAFTS s1"
    using assms by (simp add: on_media_def g)
  have "read_draft (set_text_from ?s2 carried d) d
       = (case carried of None \<Rightarrow> read_draft ?s2 d | Some t \<Rightarrow> (read_draft ?s2 d)\<lparr>dtext := t\<rparr>)"
    by (simp add: set_text_from_def read_draft_def split: option.splits)
  then show "live (on_media k s uid f carried) uid
       = (case carried of None \<Rightarrow> add_media_to_draft (live s uid) k f
                        | Some t \<Rightarrow> (add_media_to_draft (live s uid) k f)\<lparr>dtext := t\<rparr>)"
    using assms gl by (simp add: live_of [of _ uid d] d on_media_def g add_media_at_reads split: option.splits)
  show "dom (DRAFTS (on_media k s uid f carried)) = insert uid (dom (DRAFTS s))"
    by (simp add: d gl(3))
qed

lemma draft_ok_text [simp]: "draft_ok (d\<lparr>dtext := t\<rparr>) = draft_ok d"
  by (simp add: draft_ok_def)

lemma authorized_admin: "authorized uid \<longleftrightarrow> uid = ADMIN_USER_ID"
  by (simp add: authorized_def)

lemma live_cmd_timer:
  assumes "wf_state s"
  shows "live (cmd_timer s uid args now) uid = live s uid"
    and "dom (DRAFTS (cmd_timer s uid args now)) \<subseteq> insert uid (dom (DRAFTS s))"
    and "\<not> authorized uid \<Longrightarrow> cmd_timer s uid args now = s"
proof -
  obtain s1 d where g: "get_draft s uid = (s1, d)" by (cases "get_draft s uid")
  note gl = live_get_draft [OF g]
  obtain s2 c where c: "copy s1 d = (s2, c)" by (cases "copy s1 d")
  have wf1: "wf_state s1" using frame_get_draft(1) [OF assms, of uid] by (simp add: g frame_wf)
  from wf_live [OF wf1 gl(1)] have lt: "d < next_ref s1" "obj_media (draft_heap s1 d) < next_ref s1"
    by simp_all
  have s2: "DRAFTS s2 = DRAFTS s1" "read_draft s2 d = read_draft s1 d"
    using c lt by (auto simp: copy_def new_list_def new_draft_obj_def read_draft_def)
  let ?P = "\<lambda>r. DRAFTS r = DRAFTS s1 \<and> read_draft r d = read_draft s1 d"
  have r: "cmd_timer s uid args now = s \<or> ?P (cmd_timer s uid args now)"
    using s2
    by (auto simp: cmd_timer_def g c Let_def create_task_def read_draft_def
        split: sum.splits option.splits)
  then show "live (cmd_timer s uid args now) uid = live s uid"
  proof
    assume "?P (cmd_timer s uid args now)"
    then show ?thesis using gl by (simp add: live_of [of _ uid d])
  qed simp
  from r show "dom (DRAFTS (cmd_timer s uid args now)) \<subseteq> insert uid (dom (DRAFTS s))"
    using gl(3) by auto
  show "cmd_timer s uid args now = s" if "\<not> authorized uid"
    using that by (simp add: cmd_timer_def)
qed

lemma job_keeps_drafts [simp]:
  "DRAFTS (job s t io) = DRAFTS s" "draft_heap (job s t io) = draft_heap s"
  "list_heap (job s t io) = list_heap s"
  by (simp_all add: job_def called_def Let_def split: option.splits task_status.splits)

lemma cancel_timer_keeps_drafts [simp]:
  "DRAFTS (cmd_cancel_timer s uid) = DRAFTS s" "draft_heap (cmd_cancel_timer s uid) = draft_heap s"
  "list_heap (cmd_cancel_timer s uid) = list_heap s"
  by (simp_all add: cmd_cancel_timer_def)

lemma live_on_cb:
  shows "live (on_cb s uid data io) uid = live s uid \<or> live (on_cb s uid data io) uid = Draft"
    and "dom (DRAFTS (on_cb s uid data io)) \<subseteq> insert uid (dom (DRAFTS s))"
    and "\<not> authorized uid \<Longrightarrow> on_cb s uid data io = s"
proof -
  obtain s1 d where g: "get_draft s uid = (s1, d)" by (cases "get_draft s uid")
  note gl = live_get_draft [OF g]
  let ?same = "\<lambda>r. DRAFTS r = DRAFTS s1 \<and> read_draft r d = read_draft s1 d"
  let ?reset = "\<lambda>r. \<exists>a. DRAFTS r = (DRAFTS s1)(uid \<mapsto> a) \<and> read_draft r a = Draft"
  have r: "on_cb s uid data io = s \<or> ?same (on_cb s uid data io) \<or> ?reset (on_cb s uid data io)"
    by (auto simp: on_cb_def g Draft_new_eq Let_def called_def read_draft_def Draft_def)
  then consider "on_cb s uid data io = s" | "?same (on_cb s uid data io)"
    | "?reset (on_cb s uid data io)" by blast
  then show "live (on_cb s uid data io) uid = live s uid \<or> live (on_cb s uid data io) uid = Draft"
  proof cases
    case 1
    then show ?thesis by simp
  next
    case 2
    then show ?thesis using gl by (simp add: live_of [of _ uid d])
  next
    case 3
    then obtain a where "DRAFTS (on_cb s uid data io) uid = Some a"
      "read_draft (on_cb s uid data io) a = Draft" by auto
    then show ?thesis by (simp add: live_of)
  qed
  from r show "dom (DRAFTS (on_cb s uid data io)) \<subseteq> insert uid (dom (DRAFTS s))"
    using gl(3) by auto
  show "on_cb s uid data io = s" if "\<not> authorized uid"
    using that by (simp add: on_cb_def)
qed

lemma store_ok_step:
  assumes "store_ok s"
  shows "store_ok (step s e)"
proof -
  from assms have wf: "wf_state s" and dm: "dom (DRAFTS s) \<subseteq> {ADMIN_USER_ID}"
    and ok: "draft_ok (live s ADMIN_USER_ID)"
    by (simp_all add: store_ok_def)
  have wf': "wf_state (step s e)" using frame_step [OF wf] by (rule frame_wf)
  have "dom (DRAFTS (step s e)) \<subseteq> {ADMIN_USER_ID} \<and> draft_ok (live (step s e) ADMIN_USER_ID)"
  proof (cases e)
    case (Text_update uid carried)
    show ?thesis
    proof (cases "authorized uid")
      case True
      then have u: "uid = ADMIN_USER_ID" by (simp add: authorized_admin)
      show ?thesis
        using live_on_text(1,3) [OF True, of s carried] dm ok
        by (auto simp: Text_update u split: option.splits)
    next
      case False
      then show ?thesis using dm ok by (simp add: Text_update on_text_def)
    qed
  next
    case (Media_update kind uid f carried)
    show ?thesis
    proof (cases "authorized uid \<and> known_kind kind")
      case True
      then have u: "uid = ADMIN_USER_ID" by (simp add: authorized_admin)
      from True have a: "authorized uid" and k: "known_kind kind" by simp_all
      have "draft_ok (add_media_to_draft (live s ADMIN_USER_ID) kind f)"
        using ok k by (rule draft_ok_add)
      then show ?thesis
        using live_on_media [OF a, of kind s f carried] dm k
        by (auto simp: Media_update u split: option.splits)
    next
      case False
      then show ?thesis using dm ok by (auto simp: Media_update on_media_def)
    qed
  next
    case (Timer_command uid args now)
    show ?thesis
    proof (cases "authorized uid")
      case True
      then have u: "uid = ADMIN_USER_ID" by (simp add: authorized_admin)
      show ?thesis
        using live_cmd_timer(1,2) [OF wf, of uid args now] dm ok
        by (auto simp: Timer_command u)
    next
      case False
      then show ?thesis using live_cmd_timer(3) [OF wf] dm ok by (simp add: Timer_command)
    qed
  next
    case (Cancel_timer_command uid)
    have "live (cmd_cancel_timer s uid) ADMIN_USER_ID = live s ADMIN_USER_ID"
      by (rule live_cong) simp_all
    then show ?thesis using dm ok by (simp add: Cancel_timer_command)
  next
    case (When_command uid)
    then show ?thesis using dm ok by simp
  next
    case (Callback uid data io)
    show ?thesis
    proof (cases "authorized uid")
      case True
      then have u: "uid = ADMIN_USER_ID" by (simp add: authorized_admin)
      show ?thesis
        using live_on_cb(1,2) [of s uid data io] dm ok draft_ok_empty
        by (auto simp: Callback u)
    next
      case False
      then show ?thesis using live_on_cb(3) dm ok by (simp add: Callback)
    qed
  next
    case (Task_runs t io)
    have "live (job s t io) ADMIN_USER_ID = live s ADMIN_USER_ID"
      by (rule live_cong) simp_all
    then show ?thesis using dm ok by (simp add: Task_runs)
  qed
  with wf' show ?thesis by (simp add: store_ok_def)
qed

lemma store_ok_run: "store_ok s \<Longrightarrow> store_ok (run s es)"
  by (induction es arbitrary: s) (simp_all add: run_def store_ok_step)

lemma store_ok_init: "store_ok init"
  using wf_init draft_ok_empty by (simp add: store_ok_def live_none init_def)

lemma reachable_drafts_ok:
  assumes "DRAFTS (run init es) u = Some a"
  shows "u = ADMIN_USER_ID" and "draft_ok (read_draft (run init es) a)"
proof -
  have ok: "store_ok (run init es)" using store_ok_init by (rule store_ok_run)
  with assms show "u = ADMIN_USER_ID" by (auto simp: store_ok_def)
  with ok assms show "draft_ok (read_draft (run init es) a)"
    by (simp add: store_ok_def live_of)
qed

section \<open>The claims on the payload resolver and the timer parser\<close>

text \<open>
  Claim C4. The call \<open>publish_to_channel\<close> makes for a draft, in four cases.
  (1) With at least two photo/video entries it is one \<open>send_media_group\<close> to the channel
  whose items are exactly those entries, in their order in the draft (same kinds, same
  file ids); the first item carries the draft's text as caption, with parse mode HTML when
  the text is non-empty, and the other items carry neither caption nor parse mode.
  (2) Otherwise, with a non-empty media list whose last entry has one of the six kinds the
  handlers store, it is a single send of that kind and file to the channel, with the text
  as caption (no caption for an empty text).
  (3) With no media and a non-empty text it is \<open>send_message\<close> of the text.
  (4) For an empty draft the callers refuse: the publish button sends nothing to the
  channel and \<open>cmd_timer\<close> creates no task and registers no job.
\<close>

theorem payload_four_cases:
  "(2 \<le> length (filter (\<lambda>e. is_pv (fst e)) (media d)) \<longrightarrow>
      (\<exists>g. publish_to_channel d = send_media_group TARGET_CHAT g
         \<and> map item_kind g = map fst (filter (\<lambda>e. is_pv (fst e)) (media d))
         \<and> map item_file g = map snd (filter (\<lambda>e. is_pv (fst e)) (media d))
         \<and> map item_caption g
             = Some (dtext d)
               # replicate (length (filter (\<lambda>e. is_pv (fst e)) (media d)) - 1) None
         \<and> map item_parse_mode g
             = (if dtext d = [] then None else Some HTML)
               # replicate (length (filter (\<lambda>e. is_pv (fst e)) (media d)) - 1) None))
   \<and> (length (filter (\<lambda>e. is_pv (fst e)) (media d)) < 2 \<and> media d \<noteq> []
        \<and> known_kind (fst (last (media d))) \<longrightarrow>
      call_chat (publish_to_channel d) = TARGET_CHAT
      \<and> call_kind (publish_to_channel d) = Some (fst (last (media d)))
      \<and> call_file (publish_to_channel d) = Some (snd (last (media d)))
      \<and> call_caption (publish_to_channel d) = text_or_None (dtext d))
   \<and> (media d = [] \<and> dtext d \<noteq> [] \<longrightarrow>
      publish_to_channel d = send_message TARGET_CHAT (dtext d) HTML)
   \<and> (is_empty (live s uid) \<longrightarrow>
      published (on_cb s uid ''pub'' io) = published s
      \<and> tasks (cmd_timer s uid args now) = tasks s
      \<and> SCHEDULES (cmd_timer s uid args now) = SCHEDULES s
      \<and> calls (cmd_timer s uid args now) = calls s)"
proof (intro conjI impI)
  let ?pv = "filter (\<lambda>e. is_pv (fst e)) (media d)"
  assume two: "2 \<le> length ?pv"
  then obtain e rest where pv: "?pv = e # rest" by (cases ?pv) auto
  have all_pv: "list_all (\<lambda>e. is_pv (fst e)) ?pv" by (simp add: list_all_iff)
  let ?g = "group_items (dtext d) 0 ?pv"
  have f1: "publish_to_channel d = send_media_group TARGET_CHAT ?g"
    using two by (rule publish_album)
  have f2: "map item_kind ?g = map fst ?pv" using all_pv by (rule group_items_kind)
  have f3: "map item_file ?g = map snd ?pv" by (rule group_items_file)
  have f4: "map item_caption ?g = Some (dtext d) # replicate (length ?pv - 1) None"
    unfolding pv by (simp add: group_items_caption del: group_items.simps)
  have f5: "map item_parse_mode ?g
      = (if dtext d = [] then None else Some HTML) # replicate (length ?pv - 1) None"
    unfolding pv by (simp add: group_items_parse_mode del: group_items.simps)
  show "\<exists>g. publish_to_channel d = send_media_group TARGET_CHAT g
         \<and> map item_kind g = map fst ?pv \<and> map item_file g = map snd ?pv
         \<and> map item_caption g = Some (dtext d) # replicate (length ?pv - 1) None
         \<and> map item_parse_mode g
             = (if dtext d = [] then None else Some HTML) # replicate (length ?pv - 1) None"
    by (rule exI [of _ ?g]) (intro conjI f1 f2 f3 f4 f5)
next
  assume a: "length (filter (\<lambda>e. is_pv (fst e)) (media d)) < 2 \<and> media d \<noteq> []
        \<and> known_kind (fst (last (media d)))"
  then have 1: "length (filter (\<lambda>e. is_pv (fst e)) (media d)) < 2" and 2: "media d \<noteq> []"
    and 3: "known_kind (fst (last (media d)))" by simp_all
  show "call_chat (publish_to_channel d) = TARGET_CHAT"
    by (rule publish_single [OF 1 2 3])
  show "call_kind (publish_to_channel d) = Some (fst (last (media d)))"
    by (rule publish_single [OF 1 2 3])
  show "call_file (publish_to_channel d) = Some (snd (last (media d)))"
    by (rule publish_single [OF 1 2 3])
  show "call_caption (publish_to_channel d) = text_or_None (dtext d)"
    by (rule publish_single [OF 1 2 3])
next
  assume "media d = [] \<and> dtext d \<noteq> []"
  then show "publish_to_channel d = send_message TARGET_CHAT (dtext d) HTML"
    by (simp add: publish_text)
next
  assume e: "is_empty (live s uid)"
  then have e': "is_empty (read_draft (fst (get_draft s uid)) (snd (get_draft s uid)))"
    by (simp add: live_reads)
  show "published (on_cb s uid ''pub'' io) = published s"
    using e' by (rule on_cb_empty_refuses)
  show "tasks (cmd_timer s uid args now) = tasks s"
    "SCHEDULES (cmd_timer s uid args now) = SCHEDULES s"
    "calls (cmd_timer s uid args now) = calls s"
    using cmd_timer_empty_refuses [OF e'] by simp_all
qed

theorem payload_four_cases_witness:
  "publish_to_channel \<lparr>dtext = ''hello'', media = [(''photo'', ''a''), (''document'', ''x''),
                                                (''video'', ''b''), (''photo'', ''c'')]\<rparr>
     = send_media_group TARGET_CHAT
         [InputMediaPhoto ''a'' (Some ''hello'') (Some HTML),
          InputMediaVideo ''b'' None None, InputMediaPhoto ''c'' None None]
   \<and> publish_to_channel \<lparr>dtext = [], media = [(''photo'', ''a'')]\<rparr>
     = send_photo TARGET_CHAT ''a'' None HTML
   \<and> publish_to_channel \<lparr>dtext = ''cap'', media = [(''photo'', ''a''), (''voice'', ''v'')]\<rparr>
     = send_voice TARGET_CHAT ''v'' (Some ''cap'') HTML
   \<and> publish_to_channel \<lparr>dtext = ''only text'', media = []\<rparr>
     = send_message TARGET_CHAT ''only text'' HTML
   \<and> is_empty (live init ADMIN_USER_ID)
   \<and> published (on_cb init ADMIN_USER_ID ''pub''
        \<lparr>answer_ok = True, publish_ok = True, edit_ok = True, error_edit_ok = True\<rparr>) = []
   \<and> tasks (cmd_timer init ADMIN_USER_ID [''in'', ''5m'']
        \<lparr>year = 2025, month = 1, day = 1, hour = 20, minute = 0, second = 0, microsecond = 0\<rparr>)
      = Map.empty"
proof -
  have e: "is_empty (live init ADMIN_USER_ID)"
    by (simp add: live_def get_draft_def init_def Draft_new_def new_list_def new_draft_obj_def
        read_draft_def is_empty_def)
  have p: "published init = []" "tasks init = Map.empty"
    by (simp_all add: published_def init_def)
  show ?thesis
    using payload_four_cases [of "\<lparr>dtext = ''hello'', media = [(''photo'', ''a''),
         (''document'', ''x''), (''video'', ''b''), (''photo'', ''c'')]\<rparr>" init ADMIN_USER_ID]
      payload_four_cases [of "\<lparr>dtext = [], media = [(''photo'', ''a'')]\<rparr>" init ADMIN_USER_ID]
      payload_four_cases [of "\<lparr>dtext = ''cap'', media = [(''photo'', ''a''), (''voice'', ''v'')]\<rparr>"
         init ADMIN_USER_ID]
      payload_four_cases [of "\<lparr>dtext = ''only text'', media = []\<rparr>" init ADMIN_USER_ID
         "\<lparr>answer_ok = True, publish_ok = True, edit_ok = True, error_edit_ok = True\<rparr>"
         "[''in'', ''5m'']"
         "\<lparr>year = 2025, month = 1, day = 1, hour = 20, minute = 0, second = 0, microsecond = 0\<rparr>"]
      e p
    by (simp add: publish_to_channel_def draft_to_media_group_def is_pv_def truthy_def
        text_or_None_def)
qed

lemma parse_when_no_match:
  "TIME_HHMM s = None \<Longrightarrow> TIME_ABS s = None \<Longrightarrow> TIME_REL s = None \<Longrightarrow>
   parse_when s now = Inr None"
  by (simp add: parse_when_def)

text \<open>
  Claim C8, at inputs where the code departs from it. \<open>25:00\<close> matches the first grammar;
  \<open>now.replace(hour=25, ...)\<close> raises \<open>ValueError\<close> and, unlike the constructor call of
  the second grammar, is not inside a \<open>try\<close>, so the exception leaves \<open>parse_when\<close>.
  An amount of 1000000000 days makes \<open>timedelta\<close> raise \<open>OverflowError\<close> in the third.
\<close>

theorem parse_when_raises:
  "parse_when ''25:00''
     \<lparr>year = 2025, month = 1, day = 1, hour = 20, minute = 0, second = 0, microsecond = 0\<rparr>
   = Inl ValueError
   \<and> parse_when ''in 1000000000d''
     \<lparr>year = 2025, month = 1, day = 1, hour = 20, minute = 0, second = 0, microsecond = 0\<rparr>
   = Inl OverflowError"
  by (simp add: parse_when_def TIME_HHMM_def TIME_ABS_def TIME_REL_def fixed_digits_def
      unit_matches_def to_lower_def is_space_def is_digit_def py_int_def digit_value_def
      and_then_def replace_time_def valid_datetime_def timedelta_def)

text \<open>
  Claim C9 as stated fails: \<open>7:99\<close> has the form HH:MM (one-digit hour, two-digit minute),
  and \<open>parse_when\<close> returns no time for it but raises \<open>ValueError\<close>.
\<close>

theorem clock_time_out_of_range:
  "parse_when ''7:99''
     \<lparr>year = 2025, month = 1, day = 1, hour = 20, minute = 0, second = 0, microsecond = 0\<rparr>
   = Inl ValueError"
  by (simp add: parse_when_def TIME_HHMM_def is_space_def is_digit_def py_int_def
      digit_value_def and_then_def replace_time_def valid_datetime_def)

text \<open>
  Claim C9, amended. Let the input be spaces, one or two digits \<open>h\<close>, a colon, two digits
  \<open>m\<close>, spaces, with \<open>h\<close> at most 23 and \<open>m\<close> at most 59, and let \<open>now\<close> be a valid
  \<open>datetime\<close> other than on 9999-12-31. Then \<open>parse_when\<close> returns a time \<open>r\<close>: it is
  \<open>now\<close> with hour \<open>h\<close>, minute \<open>m\<close> and zero seconds and microseconds when that is
  strictly after \<open>now\<close>, and otherwise the same time on the next calendar day; in both
  cases \<open>r\<close> is strictly after \<open>now\<close>.
\<close>

theorem clock_time_today_or_tomorrow:
  assumes ws: "list_all is_space ws1" "list_all is_space ws2"
      and h: "list_all is_digit h" "length h = 1 \<or> length h = 2"
      and m: "list_all is_digit m" "length m = 2"
      and vals: "py_int h = Inr hh" "py_int m = Inr mm" "hh \<le> 23" "mm \<le> 59"
      and now: "valid_datetime now" "(year now, month now, day now) \<noteq> (9999, 12, 31)"
  shows "\<exists>r. parse_when (ws1 @ h @ '':'' @ m @ ws2) now = Inr (Some r)
           \<and> (if dt_le (now\<lparr>hour := hh, minute := mm, second := 0, microsecond := 0\<rparr>) now
               then next_day (now\<lparr>hour := hh, minute := mm, second := 0, microsecond := 0\<rparr>)
                      = Inr r
               else r = now\<lparr>hour := hh, minute := mm, second := 0, microsecond := 0\<rparr>)
           \<and> hour r = hh \<and> minute r = mm \<and> second r = 0 \<and> microsecond r = 0
           \<and> \<not> dt_le r now"
proof -
  define target where "target = now\<lparr>hour := hh, minute := mm, second := 0, microsecond := 0\<rparr>"
  have nn: "0 \<le> hh" "0 \<le> mm"
    using py_int_nonneg h(1) m(1) vals(1,2) by blast+
  have vt: "valid_datetime target"
    using now(1) nn vals(3,4) by (simp add: valid_datetime_def target_def)
  have rt: "replace_time now hh mm = Inr target"
    using vt by (simp add: replace_time_def target_def Let_def)
  have match: "TIME_HHMM (ws1 @ h @ '':'' @ m @ ws2) = Some (h, m)"
    using ws h m by (rule TIME_HHMM_form)
  obtain t2 where nd: "next_day target = Inr t2"
    using next_day_defined [OF vt] now(2) by (auto simp: target_def)
  show ?thesis
  proof (cases "dt_le target now")
    case True
    have "datetime_add target (1, 0) = Inr t2"
      using vt nd by (intro roll_forward) (simp_all add: target_def)
    then have p: "parse_when (ws1 @ h @ '':'' @ m @ ws2) now = Inr (Some t2)"
      unfolding parse_when_def match using True rt vals(1,2)
      by (simp add: and_then_def timedelta_def)
    have after: "\<not> dt_le t2 now"
      by (rule next_day_after [OF vt nd]) (simp_all add: target_def)
    have f: "hour t2 = hh" "minute t2 = mm" "second t2 = 0" "microsecond t2 = 0"
      using nd by (auto simp: next_day_def target_def split: if_splits)
    show ?thesis using p True nd after f by (simp flip: target_def)
  next
    case False
    then have "parse_when (ws1 @ h @ '':'' @ m @ ws2) now = Inr (Some target)"
      unfolding parse_when_def match using rt vals(1,2) by (simp add: and_then_def)
    then show ?thesis using False by (simp add: target_def)
  qed
qed

theorem clock_time_today_or_tomorrow_witness:
  "parse_when ''18:30''
     \<lparr>year = 2025, month = 1, day = 1, hour = 20, minute = 0, second = 0, microsecond = 0\<rparr>
   = Inr (Some \<lparr>year = 2025, month = 1, day = 2, hour = 18, minute = 30, second = 0,
                microsecond = 0\<rparr>)"
  using clock_time_today_or_tomorrow [of "[]" "[]" "''18''" "''30''" 18 30
      "\<lparr>year = 2025, month = 1, day = 1, hour = 20, minute = 0, second = 0, microsecond = 0\<rparr>"]
  by (auto simp: is_digit_def py_int_def digit_value_def valid_datetime_def days_in_month_def
      dt_le_def dt_fields_def next_day_def)


section \<open>The claims on the scheduler and the buttons\<close>

lemmas eval_defs = run_def init_def on_text_def on_media_def cmd_timer_def job_def on_cb_def
  cmd_cancel_timer_def cmd_when_def live_def
  get_draft_def Draft_new_def new_list_def new_draft_obj_def copy_def set_text_from_def
  add_media_to_draft_at_def read_draft_def is_empty_def cancel_if_pending_def task_cancel_def
  task_done_def create_task_def called_def authorized_def ADMIN_USER_ID_def published_def
  publish_to_channel_def draft_to_media_group_def text_or_None_def TARGET_CHAT_def
  known_kind_def is_pv_def slice_last_def

lemmas parse_defs = parse_when_def TIME_HHMM_def TIME_ABS_def TIME_REL_def fixed_digits_def
      unit_matches_def to_lower_def is_space_def is_digit_def py_int_def digit_value_def
      and_then_def replace_time_def valid_datetime_def timedelta_def datetime_add_def

lemma parse_in_5m:
  "parse_when ''in 5m''
     \<lparr>year = 2025, month = 1, day = 1, hour = 20, minute = 0, second = 0, microsecond = 0\<rparr>
   = Inr (Some \<lparr>year = 2025, month = 1, day = 1, hour = 20, minute = 5, second = 0,
                microsecond = 0\<rparr>)"
  by (simp add: parse_defs)

lemma parse_in_2h:
  "parse_when ''in 2h''
     \<lparr>year = 2025, month = 1, day = 1, hour = 20, minute = 0, second = 0, microsecond = 0\<rparr>
   = Inr (Some \<lparr>year = 2025, month = 1, day = 1, hour = 22, minute = 0, second = 0,
                microsecond = 0\<rparr>)"
  by (simp add: parse_defs)

text \<open>
  Claim C2. In a well-formed state let the operator's \<open>/timer\<close> command parse to \<open>w\<close> and
  the draft be non-empty. Then \<open>cmd_timer\<close> registers a job for \<open>w\<close> running a new task,
  and after any further events whatsoever (edits of the draft included) the draft that
  task captured still reads as the operator's draft read at the schedule call, and that is
  what the task publishes when it runs: it publishes the payload if it is still pending and
  the transport call returns, and nothing otherwise. A job registered for the user before
  the call is superseded: its task never publishes anything afterwards.
\<close>

theorem snapshot_isolation:
  assumes "wf_state s" and "authorized uid" and "args \<noteq> []"
      and "parse_when (join_args args) now = Inr (Some w)"
      and "\<not> is_empty (live s uid)"
  shows "SCHEDULES (cmd_timer s uid args now) uid
           = Some \<lparr>sched_when = w, sched_task = next_task s\<rparr>
       \<and> (\<forall>es io. \<exists>T. tasks (run (cmd_timer s uid args now) es) (next_task s) = Some T
             \<and> read_draft (run (cmd_timer s uid args now) es) (job_draft T) = live s uid
             \<and> published (job (run (cmd_timer s uid args now) es) (next_task s) io)
                 = published (run (cmd_timer s uid args now) es)
                   @ (if status T = Pending \<and> job_publish_ok io
                      then [publish_to_channel (live s uid)] else []))
       \<and> (\<forall>old es io. SCHEDULES s uid = Some old \<longrightarrow>
             published (job (run (cmd_timer s uid args now) es) (sched_task old) io)
               = published (run (cmd_timer s uid args now) es))"
proof (intro conjI allI impI)
  let ?s = "cmd_timer s uid args now"
  note sch = cmd_timer_scheduled [OF assms(2-5)]
  have wf': "wf_state ?s" using frame_cmd_timer [OF assms(1)] by (rule frame_wf)
  show "SCHEDULES ?s uid = Some \<lparr>sched_when = w, sched_task = next_task s\<rparr>" by (rule sch(1))
  from sch(2) obtain d where
    t: "tasks ?s (next_task s) = Some \<lparr>job_uid = uid, job_when = w, job_draft = d, status = Pending\<rparr>"
    and rd: "read_draft ?s d = live s uid" by blast
  show "\<exists>T. tasks (run ?s es) (next_task s) = Some T
             \<and> read_draft (run ?s es) (job_draft T) = live s uid
             \<and> published (job (run ?s es) (next_task s) io)
                 = published (run ?s es)
                   @ (if status T = Pending \<and> job_publish_ok io
                      then [publish_to_channel (live s uid)] else [])" for es io
  proof -
    from payload_kept [OF wf' t, of es] obtain T where
      T: "tasks (run ?s es) (next_task s) = Some T"
      and r: "read_draft (run ?s es) (job_draft T) = live s uid"
      by (auto simp: rd)
    show ?thesis using T r published_job [OF T, of io] by simp
  qed
  show "published (job (run ?s es) (sched_task old) io) = published (run ?s es)"
    if "SCHEDULES s uid = Some old" for old es io
  proof -
    from sch(4) [OF assms(1) that] obtain T where
      "tasks ?s (sched_task old) = Some T" "status T \<noteq> Pending" by blast
    then show ?thesis by (rule never_publishes [OF wf'])
  qed
qed

theorem snapshot_isolation_witness:
  "SCHEDULES (cmd_timer scheduled_then_edited ADMIN_USER_ID [''in'', ''2h'']
      \<lparr>year = 2025, month = 1, day = 1, hour = 20, minute = 0, second = 0, microsecond = 0\<rparr>)
     ADMIN_USER_ID
   = Some \<lparr>sched_when = \<lparr>year = 2025, month = 1, day = 1, hour = 22, minute = 0, second = 0,
                microsecond = 0\<rparr>, sched_task = 1\<rparr>
   \<and> published (job (run (cmd_timer scheduled_then_edited ADMIN_USER_ID [''in'', ''2h'']
      \<lparr>year = 2025, month = 1, day = 1, hour = 20, minute = 0, second = 0, microsecond = 0\<rparr>)
        [Text_update ADMIN_USER_ID (Some ''third''), Media_update ''photo'' ADMIN_USER_ID ''p'' None])
       1 \<lparr>job_publish_ok = True, confirm_ok = True, report_ok = True\<rparr>)
     = [send_message TARGET_CHAT ''second'' HTML]
   \<and> published (job (run (cmd_timer scheduled_then_edited ADMIN_USER_ID [''in'', ''2h'']
      \<lparr>year = 2025, month = 1, day = 1, hour = 20, minute = 0, second = 0, microsecond = 0\<rparr>)
        [Text_update ADMIN_USER_ID (Some ''third''), Media_update ''photo'' ADMIN_USER_ID ''p'' None])
       0 \<lparr>job_publish_ok = True, confirm_ok = True, report_ok = True\<rparr>)
     = []"
proof -
  have w: "wf_state scheduled_then_edited" unfolding scheduled_then_edited_def by (rule wf_run)
  have a: "authorized ADMIN_USER_ID" by (simp add: authorized_def)
  have ne: "[''in'', ''2h''] \<noteq> []" by simp
  have n: "\<not> is_empty (live scheduled_then_edited ADMIN_USER_ID)"
    by (simp add: scheduled_then_edited_def eval_defs parse_in_5m Let_def)
  have p: "parse_when (join_args [''in'', ''2h''])
     \<lparr>year = 2025, month = 1, day = 1, hour = 20, minute = 0, second = 0, microsecond = 0\<rparr>
   = Inr (Some \<lparr>year = 2025, month = 1, day = 1, hour = 22, minute = 0, second = 0,
                microsecond = 0\<rparr>)"
    by (simp add: parse_in_2h)
  note inst = snapshot_isolation [OF w a ne p n]
  have s: "cmd_timer scheduled_then_edited ADMIN_USER_ID [''in'', ''2h'']
      \<lparr>year = 2025, month = 1, day = 1, hour = 20, minute = 0, second = 0, microsecond = 0\<rparr>
    = run init
       [Text_update ADMIN_USER_ID (Some ''first''),
        Timer_command ADMIN_USER_ID [''in'', ''5m'']
          \<lparr>year = 2025, month = 1, day = 1, hour = 20, minute = 0, second = 0, microsecond = 0\<rparr>,
        Text_update ADMIN_USER_ID (Some ''second''),
        Timer_command ADMIN_USER_ID [''in'', ''2h'']
          \<lparr>year = 2025, month = 1, day = 1, hour = 20, minute = 0, second = 0, microsecond = 0\<rparr>]"
    by (simp add: scheduled_then_edited_def run_def)
  have e1: "SCHEDULES (cmd_timer scheduled_then_edited ADMIN_USER_ID [''in'', ''2h'']
      \<lparr>year = 2025, month = 1, day = 1, hour = 20, minute = 0, second = 0, microsecond = 0\<rparr>)
     ADMIN_USER_ID
   = Some \<lparr>sched_when = \<lparr>year = 2025, month = 1, day = 1, hour = 22, minute = 0, second = 0,
                microsecond = 0\<rparr>, sched_task = 1\<rparr>"
    unfolding s by (simp add: eval_defs parse_in_5m parse_in_2h Let_def)
  have e2: "published (job (run (cmd_timer scheduled_then_edited ADMIN_USER_ID [''in'', ''2h'']
      \<lparr>year = 2025, month = 1, day = 1, hour = 20, minute = 0, second = 0, microsecond = 0\<rparr>)
        [Text_update ADMIN_USER_ID (Some ''third''), Media_update ''photo'' ADMIN_USER_ID ''p'' None])
       1 \<lparr>job_publish_ok = True, confirm_ok = True, report_ok = True\<rparr>)
     = [send_message TARGET_CHAT ''second'' HTML]"
    unfolding s by (simp add: eval_defs parse_in_5m parse_in_2h Let_def)
  have e3: "published (job (run (cmd_timer scheduled_then_edited ADMIN_USER_ID [''in'', ''2h'']
      \<lparr>year = 2025, month = 1, day = 1, hour = 20, minute = 0, second = 0, microsecond = 0\<rparr>)
        [Text_update ADMIN_USER_ID (Some ''third''), Media_update ''photo'' ADMIN_USER_ID ''p'' None])
       0 \<lparr>job_publish_ok = True, confirm_ok = True, report_ok = True\<rparr>)
     = []"
    unfolding s by (simp add: eval_defs parse_in_5m parse_in_2h Let_def)
  from inst e1 e2 e3 show ?thesis by blast
qed

lemma job_failure_keeps_registry:
  "\<not> job_publish_ok io \<Longrightarrow> SCHEDULES (job s t io) = SCHEDULES s"
  by (simp add: job_def called_def Let_def split: option.splits task_status.splits)

text \<open>
  Claim C3, at an input where the code departs from it. The operator schedules a text and
  the task runs, with the publish call raising a transport error (\<open>run_failed\<close>). The
  failure is reported to the operator and the task is finished, so nothing is retried; but
  the job is still in \<open>SCHEDULES\<close>, and \<open>/when\<close> goes on answering with its time:
  \<open>SCHEDULES.pop(uid, None)\<close> is reached on the success path only.
\<close>

theorem failed_job_stays_registered:
  "SCHEDULES run_failed ADMIN_USER_ID
     = Some \<lparr>sched_when = \<lparr>year = 2025, month = 1, day = 1, hour = 20, minute = 5, second = 0,
                microsecond = 0\<rparr>, sched_task = 0\<rparr>
   \<and> cmd_when run_failed ADMIN_USER_ID
     = Some \<lparr>year = 2025, month = 1, day = 1, hour = 20, minute = 5, second = 0, microsecond = 0\<rparr>
   \<and> map_option status (tasks run_failed 0) = Some Finished
   \<and> calls run_failed
     = [(send_message TARGET_CHAT ''hello'' HTML, False),
        (notify ADMIN_USER_ID Scheduled_publish_error, True)]"
  by (simp add: run_failed_def eval_defs parse_in_5m Let_def)

text \<open>
  Claim C7 as stated fails: after a successful scheduled publish (\<open>run_fired\<close>: the text
  went out to the channel and the job left the registry) the operator's draft still holds
  the text; the closure \<open>job\<close> never touches \<open>DRAFTS\<close>.
\<close>

theorem scheduled_publish_keeps_draft:
  "published run_fired = [send_message TARGET_CHAT ''hello'' HTML]
   \<and> live run_fired ADMIN_USER_ID = \<lparr>dtext = ''hello'', media = []\<rparr>
   \<and> SCHEDULES run_fired ADMIN_USER_ID = None"
  by (simp add: run_fired_def eval_defs parse_in_5m Let_def)

text \<open>
  Claim C7, amended. When the publish button is pressed on a non-empty draft and both the
  publish call and the confirmation to the operator return, the user's entry in \<open>DRAFTS\<close>
  is a fresh empty Draft afterwards (and the draft that was there went to the channel);
  when the clear button is pressed, it is a fresh empty Draft, too; the entry is never
  removed. When the publish call of the button raises, the draft reads as before and
  nothing was published.
\<close>

theorem draft_reset_on_publish_or_clear:
  "(authorized uid \<and> answer_ok io \<and> publish_ok io \<and> edit_ok io \<and> \<not> is_empty (live s uid) \<longrightarrow>
      live (on_cb s uid ''pub'' io) uid = Draft
      \<and> DRAFTS (on_cb s uid ''pub'' io) uid \<noteq> None
      \<and> published (on_cb s uid ''pub'' io) = published s @ [publish_to_channel (live s uid)])
   \<and> (authorized uid \<and> answer_ok io \<longrightarrow>
      live (on_cb s uid ''clr'' io) uid = Draft
      \<and> DRAFTS (on_cb s uid ''clr'' io) uid \<noteq> None)
   \<and> (\<not> publish_ok io \<longrightarrow>
      live (on_cb s uid ''pub'' io) uid = live s uid
      \<and> published (on_cb s uid ''pub'' io) = published s)"
  using on_cb_pub_ok(1,2,4) [of uid io s] on_cb_clr(1,2) [of uid io s]
    on_cb_pub_failed [of io s uid]
  by blast

theorem draft_reset_on_publish_or_clear_witness:
  "live (on_cb (run init [Text_update ADMIN_USER_ID (Some ''hello'')]) ADMIN_USER_ID ''pub''
       \<lparr>answer_ok = True, publish_ok = True, edit_ok = True, error_edit_ok = True\<rparr>)
     ADMIN_USER_ID = Draft
   \<and> published (on_cb (run init [Text_update ADMIN_USER_ID (Some ''hello'')]) ADMIN_USER_ID ''pub''
       \<lparr>answer_ok = True, publish_ok = True, edit_ok = True, error_edit_ok = True\<rparr>)
     = [send_message TARGET_CHAT ''hello'' HTML]
   \<and> live (on_cb (run init [Text_update ADMIN_USER_ID (Some ''hello'')]) ADMIN_USER_ID ''clr''
       \<lparr>answer_ok = True, publish_ok = True, edit_ok = True, error_edit_ok = True\<rparr>)
     ADMIN_USER_ID = Draft
   \<and> live (on_cb (run init [Text_update ADMIN_USER_ID (Some ''hello'')]) ADMIN_USER_ID ''pub''
       \<lparr>answer_ok = True, publish_ok = False, edit_ok = True, error_edit_ok = True\<rparr>)
     ADMIN_USER_ID = \<lparr>dtext = ''hello'', media = []\<rparr>
   \<and> published (on_cb (run init [Text_update ADMIN_USER_ID (Some ''hello'')]) ADMIN_USER_ID ''pub''
       \<lparr>answer_ok = True, publish_ok = False, edit_ok = True, error_edit_ok = True\<rparr>)
     = []"
proof -
  let ?s = "run init [Text_update ADMIN_USER_ID (Some ''hello'')]"
  have a: "authorized ADMIN_USER_ID" by (simp add: authorized_def)
  have l: "live ?s ADMIN_USER_ID = \<lparr>dtext = ''hello'', media = []\<rparr>"
    by (simp add: eval_defs)
  have p: "published ?s = []" by (simp add: eval_defs)
  have c: "publish_to_channel \<lparr>dtext = ''hello'', media = []\<rparr> = send_message TARGET_CHAT ''hello'' HTML"
    by (simp add: publish_text)
  show ?thesis
    using draft_reset_on_publish_or_clear [of ADMIN_USER_ID
        "\<lparr>answer_ok = True, publish_ok = True, edit_ok = True, error_edit_ok = True\<rparr>" ?s]
      draft_reset_on_publish_or_clear [of ADMIN_USER_ID
        "\<lparr>answer_ok = True, publish_ok = False, edit_ok = True, error_edit_ok = True\<rparr>" ?s]
      a
    by (simp add: l p c is_empty_def)
qed

text \<open>
  The two buttons and the timer, on the paths where the handler runs to its end. In a
  well-formed state, let the operator press the publish button on a non-empty draft with
  the publish call returning, or the clear button, and let \<open>q.answer()\<close> and the
  confirming \<open>edit_message_text\<close> return. Afterwards no job is registered for the user, the
  draft is a fresh empty one, and the task of a job that was registered is no longer
  pending (its cancellation was requested, or it had finished already): whatever happens
  later, running it publishes nothing.
\<close>

lemma publish_and_clear_cancel_timer:
  assumes "wf_state s" and "authorized uid" and "answer_ok io" and "edit_ok io"
      and "data = ''clr'' \<or> (data = ''pub'' \<and> publish_ok io \<and> \<not> is_empty (live s uid))"
  shows "SCHEDULES (on_cb s uid data io) uid = None
       \<and> live (on_cb s uid data io) uid = Draft
       \<and> (\<forall>old. SCHEDULES s uid = Some old \<longrightarrow>
            (\<exists>T. tasks s (sched_task old) = Some T
               \<and> tasks (on_cb s uid data io) (sched_task old)
                   = Some (if status T = Pending then T\<lparr>status := CancelRequested\<rparr> else T))
            \<and> (\<forall>es io2. published (job (run (on_cb s uid data io) es) (sched_task old) io2)
                          = published (run (on_cb s uid data io) es)))"
proof -
  let ?s = "on_cb s uid data io"
  have wf': "wf_state ?s" using frame_on_cb [OF assms(1)] by (rule frame_wf)
  have reg: "SCHEDULES ?s uid = None" and lv: "live ?s uid = Draft"
    using assms(2-5) on_cb_pub_ok(1,3) [of uid io s] on_cb_clr(1,3) [of uid io s] by auto
  have old: "(\<exists>T. tasks s (sched_task old) = Some T
               \<and> tasks ?s (sched_task old)
                   = Some (if status T = Pending then T\<lparr>status := CancelRequested\<rparr> else T))
            \<and> (\<forall>es io2. published (job (run ?s es) (sched_task old) io2) = published (run ?s es))"
    if o: "SCHEDULES s uid = Some old" for old
  proof -
    from assms(1) o obtain T0 where t0: "tasks s (sched_task old) = Some T0"
      unfolding wf_state_def by blast
    let ?T = "if status T0 = Pending then T0\<lparr>status := CancelRequested\<rparr> else T0"
    have T: "tasks ?s (sched_task old) = Some ?T"
      using assms(2-5) on_cb_pub_ok(5) [OF _ _ _ _ _ o t0, of io] on_cb_clr(4) [OF _ _ _ o t0, of io]
      by auto
    have "status ?T \<noteq> Pending" by simp
    from never_publishes [OF wf' T this] t0 T show ?thesis by blast
  qed
  show ?thesis using reg lv old by blast
qed

lemma publish_and_clear_cancel_timer_example:
  "SCHEDULES scheduled_then_edited ADMIN_USER_ID
     = Some \<lparr>sched_when = \<lparr>year = 2025, month = 1, day = 1, hour = 20, minute = 5, second = 0,
                microsecond = 0\<rparr>, sched_task = 0\<rparr>
   \<and> map_option status (tasks scheduled_then_edited 0) = Some Pending
   \<and> SCHEDULES (on_cb scheduled_then_edited ADMIN_USER_ID ''pub''
        \<lparr>answer_ok = True, publish_ok = True, edit_ok = True, error_edit_ok = True\<rparr>)
       ADMIN_USER_ID = None
   \<and> map_option status (tasks (on_cb scheduled_then_edited ADMIN_USER_ID ''pub''
        \<lparr>answer_ok = True, publish_ok = True, edit_ok = True, error_edit_ok = True\<rparr>) 0)
     = Some CancelRequested
   \<and> SCHEDULES (on_cb scheduled_then_edited ADMIN_USER_ID ''clr''
        \<lparr>answer_ok = True, publish_ok = True, edit_ok = True, error_edit_ok = True\<rparr>)
       ADMIN_USER_ID = None
   \<and> map_option status (tasks (on_cb scheduled_then_edited ADMIN_USER_ID ''clr''
        \<lparr>answer_ok = True, publish_ok = True, edit_ok = True, error_edit_ok = True\<rparr>) 0)
     = Some CancelRequested
   \<and> live (on_cb scheduled_then_edited ADMIN_USER_ID ''clr''
        \<lparr>answer_ok = True, publish_ok = True, edit_ok = True, error_edit_ok = True\<rparr>)
       ADMIN_USER_ID = Draft"
proof -
  let ?io = "\<lparr>answer_ok = True, publish_ok = True, edit_ok = True, error_edit_ok = True\<rparr>"
  have w: "wf_state scheduled_then_edited" unfolding scheduled_then_edited_def by (rule wf_run)
  have a: "authorized ADMIN_USER_ID" by (simp add: authorized_def)
  have ok: "answer_ok ?io" "edit_ok ?io" "publish_ok ?io" by simp_all
  have n: "\<not> is_empty (live scheduled_then_edited ADMIN_USER_ID)"
    by (simp add: scheduled_then_edited_def eval_defs parse_in_5m Let_def)
  have r: "SCHEDULES scheduled_then_edited ADMIN_USER_ID
     = Some \<lparr>sched_when = \<lparr>year = 2025, month = 1, day = 1, hour = 20, minute = 5, second = 0,
                microsecond = 0\<rparr>, sched_task = 0\<rparr>"
    by (simp add: scheduled_then_edited_def eval_defs parse_in_5m Let_def)
  have t: "tasks scheduled_then_edited 0
     = Some \<lparr>job_uid = ADMIN_USER_ID,
             job_when = \<lparr>year = 2025, month = 1, day = 1, hour = 20, minute = 5, second = 0,
                microsecond = 0\<rparr>, job_draft = 3, status = Pending\<rparr>"
    by (simp add: scheduled_then_edited_def eval_defs parse_in_5m Let_def)
  have pub: "data = ''clr'' \<or> (data = ''pub'' \<and> publish_ok ?io
        \<and> \<not> is_empty (live scheduled_then_edited ADMIN_USER_ID))" if "data = ''pub''" for data
    using that n by simp
  note i1 = publish_and_clear_cancel_timer [OF w a ok(1,2) pub [OF refl]]
  note i2 = publish_and_clear_cancel_timer [OF w a ok(1,2) disjI1 [OF refl]]
  from i1 i2 r t show ?thesis by (simp add: Draft_def)
qed

text \<open>
  Claim C10, at inputs where the code departs from it. In \<open>scheduled_then_edited\<close> a job
  is pending (its payload reads \<open>first\<close>) and the draft reads \<open>second\<close>. In both branches
  of \<open>on_cb\<close> the confirming \<open>edit_message_text\<close> is awaited before
  \<open>SCHEDULES.pop(uid, None)\<close> and \<open>task.cancel()\<close>, so when it raises they are never
  reached. After the clear button the draft is a fresh empty one, yet the job is still
  registered and its task still pending, and when the task runs it publishes \<open>first\<close>.
  After the publish button \<open>second\<close> is out on the channel, yet the job is still registered
  and pending (and the draft was not reset).
\<close>

theorem failed_confirmation_keeps_timer:
  "live (on_cb scheduled_then_edited ADMIN_USER_ID ''clr''
        \<lparr>answer_ok = True, publish_ok = True, edit_ok = False, error_edit_ok = True\<rparr>)
     ADMIN_USER_ID = Draft
   \<and> SCHEDULES (on_cb scheduled_then_edited ADMIN_USER_ID ''clr''
        \<lparr>answer_ok = True, publish_ok = True, edit_ok = False, error_edit_ok = True\<rparr>)
       ADMIN_USER_ID
     = Some \<lparr>sched_when = \<lparr>year = 2025, month = 1, day = 1, hour = 20, minute = 5, second = 0,
                microsecond = 0\<rparr>, sched_task = 0\<rparr>
   \<and> map_option status (tasks (on_cb scheduled_then_edited ADMIN_USER_ID ''clr''
        \<lparr>answer_ok = True, publish_ok = True, edit_ok = False, error_edit_ok = True\<rparr>) 0)
     = Some Pending
   \<and> published (job (on_cb scheduled_then_edited ADMIN_USER_ID ''clr''
        \<lparr>answer_ok = True, publish_ok = True, edit_ok = False, error_edit_ok = True\<rparr>) 0
        \<lparr>job_publish_ok = True, confirm_ok = True, report_ok = True\<rparr>)
     = [send_message TARGET_CHAT ''first'' HTML]
   \<and> published (on_cb scheduled_then_edited ADMIN_USER_ID ''pub''
        \<lparr>answer_ok = True, publish_ok = True, edit_ok = False, error_edit_ok = True\<rparr>)
     = [send_message TARGET_CHAT ''second'' HTML]
   \<and> SCHEDULES (on_cb scheduled_then_edited ADMIN_USER_ID ''pub''
        \<lparr>answer_ok = True, publish_ok = True, edit_ok = False, error_edit_ok = True\<rparr>)
       ADMIN_USER_ID
     = Some \<lparr>sched_when = \<lparr>year = 2025, month = 1, day = 1, hour = 20, minute = 5, second = 0,
                microsecond = 0\<rparr>, sched_task = 0\<rparr>
   \<and> map_option status (tasks (on_cb scheduled_then_edited ADMIN_USER_ID ''pub''
        \<lparr>answer_ok = True, publish_ok = True, edit_ok = False, error_edit_ok = True\<rparr>) 0)
     = Some Pending
   \<and> live (on_cb scheduled_then_edited ADMIN_USER_ID ''pub''
        \<lparr>answer_ok = True, publish_ok = True, edit_ok = False, error_edit_ok = True\<rparr>)
       ADMIN_USER_ID = \<lparr>dtext = ''second'', media = []\<rparr>"
proof -
  let ?io = "\<lparr>answer_ok = True, publish_ok = True, edit_ok = False, error_edit_ok = True\<rparr>"
  have c1: "live (on_cb scheduled_then_edited ADMIN_USER_ID ''clr'' ?io) ADMIN_USER_ID = Draft"
    by (simp add: scheduled_then_edited_def eval_defs parse_in_5m Let_def Draft_def)
  have c2: "SCHEDULES (on_cb scheduled_then_edited ADMIN_USER_ID ''clr'' ?io) ADMIN_USER_ID
     = Some \<lparr>sched_when = \<lparr>year = 2025, month = 1, day = 1, hour = 20, minute = 5, second = 0,
                microsecond = 0\<rparr>, sched_task = 0\<rparr>"
    by (simp add: scheduled_then_edited_def eval_defs parse_in_5m Let_def)
  have c3: "map_option status (tasks (on_cb scheduled_then_edited ADMIN_USER_ID ''clr'' ?io) 0)
     = Some Pending"
    by (simp add: scheduled_then_edited_def eval_defs parse_in_5m Let_def)
  have c4: "published (job (on_cb scheduled_then_edited ADMIN_USER_ID ''clr'' ?io) 0
        \<lparr>job_publish_ok = True, confirm_ok = True, report_ok = True\<rparr>)
     = [send_message TARGET_CHAT ''first'' HTML]"
    by (simp add: scheduled_then_edited_def eval_defs parse_in_5m Let_def)
  have p1: "published (on_cb scheduled_then_edited ADMIN_USER_ID ''pub'' ?io)
     = [send_message TARGET_CHAT ''second'' HTML]"
    by (simp add: scheduled_then_edited_def eval_defs parse_in_5m Let_def)
  have p2: "SCHEDULES (on_cb scheduled_then_edited ADMIN_USER_ID ''pub'' ?io) ADMIN_USER_ID
     = Some \<lparr>sched_when = \<lparr>year = 2025, month = 1, day = 1, hour = 20, minute = 5, second = 0,
                microsecond = 0\<rparr>, sched_task = 0\<rparr>"
    by (simp add: scheduled_then_edited_def eval_defs parse_in_5m Let_def)
  have p3: "map_option status (tasks (on_cb scheduled_then_edited ADMIN_USER_ID ''pub'' ?io) 0)
     = Some Pending"
    by (simp add: scheduled_then_edited_def eval_defs parse_in_5m Let_def)
  have p4: "live (on_cb scheduled_then_edited ADMIN_USER_ID ''pub'' ?io) ADMIN_USER_ID
     = \<lparr>dtext = ''second'', media = []\<rparr>"
    by (simp add: scheduled_then_edited_def eval_defs parse_in_5m Let_def)
  from c1 c2 c3 c4 p1 p2 p3 p4 show ?thesis by (intro conjI)
qed

end
